theory Spec2Isabelle
  imports Complex_Main
begin

section \<open>The cell grid of \<open>auto_cell.cpp\<close>\<close>

text \<open>
  The theory embeds the classes \<open>Cell\<close> and \<open>CellGrand\<close> of \<open>src/auto_cell.cpp\<close>.
  A C++ name that ends in an underscore is written here with a prime after the
  underscore (\<open>w_\<close> becomes \<open>w_'\<close>), because Isabelle keeps names with a trailing
  underscore to itself.

  C++ \<open>int\<close> has 32 bits. The members are kept as \<open>int\<close>, and the arithmetic of the
  layout, where the operands come from the caller and the display, wraps round at 32
  bits (\<open>wrap32\<close>). The array \<open>cells_\<close> has \<open>MAX_CELL_COUNT\<close> elements: it is a function
  from indices to cells, and a write of the layout loop at an index outside
  \<open>[0, MAX_CELL_COUNT)\<close>, after which C++ defines no state, ends the layout with
  \<open>ArrayOverrun\<close>. \<open>ai_\<close> writes the elements that the last layout wrote; the indices that
  its probes read are listed by \<open>around_reads\<close>.
\<close>

subsection \<open>Cell (lines 69-92)\<close>

text \<open>\<open>CellShape\<close> is \<open>SDL_Rect\<close>: the four \<open>int\<close> fields x, y, w, h.\<close>

record CellShape =
  rect_x :: int
  rect_y :: int
  rect_w :: int
  rect_h :: int

text \<open>
  \<open>CellShake\<close> is \<open>SDL_FPoint\<close>. The only values ever stored are \<open>0.0f\<close> and the
  conversion of an \<open>int\<close> drawn from \<open>[-1, 1]\<close>, so the two floats are kept as integers.
\<close>

type_synonym CellShake = "int \<times> int"

record Cell =
  is_active_' :: bool
  wait_for_select_' :: bool
  active_change :: bool
  shape_' :: CellShape
  shake_' :: CellShake

definition get_active_state :: "Cell \<Rightarrow> bool" where
  "get_active_state c = is_active_' c"

definition set_active_state :: "bool \<Rightarrow> Cell \<Rightarrow> Cell" where
  "set_active_state s c = c\<lparr>is_active_' := s\<rparr>"

definition get_wait_state :: "Cell \<Rightarrow> bool" where
  "get_wait_state c = wait_for_select_' c"

definition set_wait_state :: "bool \<Rightarrow> Cell \<Rightarrow> Cell" where
  "set_wait_state s c = c\<lparr>wait_for_select_' := s\<rparr>"

definition get_shape :: "Cell \<Rightarrow> CellShape" where
  "get_shape c = shape_' c"

definition set_shape :: "CellShape \<Rightarrow> Cell \<Rightarrow> Cell" where
  "set_shape shape c = c\<lparr>shape_' := shape\<rparr>"

definition get_shake :: "Cell \<Rightarrow> CellShake" where
  "get_shake c = shake_' c"

definition set_shake :: "CellShake \<Rightarrow> Cell \<Rightarrow> Cell" where
  "set_shake s c = c\<lparr>shake_' := s\<rparr>"

definition get_active_change :: "Cell \<Rightarrow> bool" where
  "get_active_change c = active_change c"

definition set_active_change :: "bool \<Rightarrow> Cell \<Rightarrow> Cell" where
  "set_active_change s c = c\<lparr>active_change := s\<rparr>"

text \<open>
  \<open>Cell() = default\<close>: the three flags and the shake take their member initialisers; the
  shape has none, so its value is whatever the memory held, a parameter here.
\<close>

definition Cell_default :: "CellShape \<Rightarrow> Cell" where
  "Cell_default junk =
     \<lparr>is_active_' = False, wait_for_select_' = False, active_change = False,
      shape_' = junk, shake_' = (0, 0)\<rparr>"

subsection \<open>The random source (lines 35-67)\<close>

text \<open>
  The global \<open>Random::mt\<close> is the stream of its future raw outputs. \<open>Random::get(min, max)\<close>
  draws through \<open>std::uniform_int_distribution{min, max}\<close>, whose result lies in
  \<open>[min, max]\<close>; the reduction of the raw output into that interval stands for it.
\<close>

type_synonym mt19937 = "nat \<Rightarrow> nat"

definition Random_get :: "int \<Rightarrow> int \<Rightarrow> mt19937 \<Rightarrow> int \<times> mt19937" where
  "Random_get lo hi mt = (lo + int (mt 0) mod (hi - lo + 1), \<lambda>n. mt (Suc n))"

subsection \<open>CellGrand: the members (lines 155-163)\<close>

definition MAX_CELL_COUNT :: int where
  "MAX_CELL_COUNT = 16384"

text \<open>
  \<open>scale_x_\<close> and \<open>scale_y_\<close> are floats that only feed the display queries; what the
  engine reads from the display is the record \<open>Display\<close> below.
\<close>

record CellGrand =
  side_' :: int
  w_' :: int
  h_' :: int
  cells_' :: "nat \<Rightarrow> Cell"
  cell_count_' :: int
  ready_' :: int
  start_' :: bool

text \<open>
  What one call reads from SDL: whether the render scale differs from the stored one
  (the negation of the test of lines 250-251), and \<open>window_w\<close>, \<open>window_h\<close> as they stand
  after lines 268-269, the window size divided by the scale and converted back to \<open>int\<close>.
\<close>

record Display =
  scale_changed :: bool
  window_w :: int
  window_h :: int

text \<open>
  The ways a construction or a layout ends without an engine: the assertion of line 154,
  the assertion of line 291, and a write of the loop of lines 293-300 outside \<open>cells_\<close>.
\<close>

datatype error = SideTooSmall | CellCountExceeded | ArrayOverrun

text \<open>
  Arithmetic on \<open>int\<close>: the result of each operation reduced to the 32-bit two's
  complement range. The \<open>/\<close> of C++ truncates towards zero.
\<close>

definition wrap32 :: "int \<Rightarrow> int" where
  "wrap32 x = (x + 2147483648) mod 4294967296 - 2147483648"

definition add32 :: "int \<Rightarrow> int \<Rightarrow> int" where
  "add32 a b = wrap32 (a + b)"

definition sub32 :: "int \<Rightarrow> int \<Rightarrow> int" where
  "sub32 a b = wrap32 (a - b)"

definition mul32 :: "int \<Rightarrow> int \<Rightarrow> int" where
  "mul32 a b = wrap32 (a * b)"

definition cdiv :: "int \<Rightarrow> int \<Rightarrow> int" where
  "cdiv a b = sgn a * sgn b * (\<bar>a\<bar> div \<bar>b\<bar>)"

definition div32 :: "int \<Rightarrow> int \<Rightarrow> int" where
  "div32 a b = wrap32 (cdiv a b)"

subsection \<open>Layout: \<open>init_cells_\<close> (lines 261-301)\<close>

definition kGap :: int where
  "kGap = 2"

text \<open>
  The index \<open>i * w_ + j\<close> of lines 295, and whether it lies inside the array.
\<close>

definition cell_index :: "int \<Rightarrow> int \<Rightarrow> int \<Rightarrow> int" where
  "cell_index w i j = add32 (mul32 i w) j"

definition in_array :: "int \<Rightarrow> bool" where
  "in_array k = (0 \<le> k \<and> k < MAX_CELL_COUNT)"

text \<open>The chain of setters of lines 295-298 on one element.\<close>

definition init_write :: "int \<Rightarrow> int \<Rightarrow> int \<Rightarrow> int \<Rightarrow> int \<Rightarrow> int \<Rightarrow> (nat \<Rightarrow> Cell) \<Rightarrow> (nat \<Rightarrow> Cell)" where
  "init_write side w start_pos_x start_pos_y i j cs =
     cs(nat (cell_index w i j) :=
          set_active_change False (set_active_state False (set_wait_state False
            (set_shape \<lparr>rect_x = add32 start_pos_x (mul32 i (add32 side kGap)),
                        rect_y = add32 start_pos_y (mul32 j (add32 side kGap)),
                        rect_w = side, rect_h = side\<rparr>
               (cs (nat (cell_index w i j)))))))"

text \<open>
  One pass through the loop body: once a write has left the array nothing more is
  defined.
\<close>

definition init_cell :: "int \<Rightarrow> int \<Rightarrow> int \<Rightarrow> int \<Rightarrow> int \<Rightarrow> int \<Rightarrow> error + (nat \<Rightarrow> Cell) \<Rightarrow> error + (nat \<Rightarrow> Cell)" where
  "init_cell side w start_pos_x start_pos_y i j r =
     (case r of
        Inl e \<Rightarrow> Inl e
      | Inr cs \<Rightarrow>
          if in_array (cell_index w i j)
          then Inr (init_write side w start_pos_x start_pos_y i j cs)
          else Inl ArrayOverrun)"

text \<open>Whether every write of the loops of lines 293-300 lies inside the array.\<close>

definition layout_in_array :: "int \<Rightarrow> int \<Rightarrow> bool" where
  "layout_in_array w h =
     list_all (\<lambda>i. list_all (\<lambda>j. in_array (cell_index w i j)) (map int [0..<nat h]))
              (map int [0..<nat w])"

text \<open>
  Lines 271-278 and 280-287: the anchor \<open>start_pos\<close> and the new count of one axis.
  (\<open>side_ \<ge> 3\<close> whenever a layout runs, by \<open>check_valid\<close>, so no divisor is zero.)
\<close>

definition layout_x :: "Display \<Rightarrow> CellGrand \<Rightarrow> int \<times> int" where
  "layout_x d s =
     (let width = add32 (mul32 (side_' s) (w_' s)) (mul32 kGap (sub32 (w_' s) 1))
      in if width > sub32 (window_w d) (add32 (mul32 4 kGap) (mul32 2 (side_' s)))
         then (mul32 2 kGap, div32 (sub32 (window_w d) 2) (add32 2 (side_' s)))
         else (div32 (sub32 (window_w d) width) 2, div32 (add32 width 2) (add32 (side_' s) 2)))"

definition layout_y :: "Display \<Rightarrow> CellGrand \<Rightarrow> int \<times> int" where
  "layout_y d s =
     (let height = add32 (mul32 (side_' s) (h_' s)) (mul32 kGap (sub32 (h_' s) 1))
      in if height > sub32 (window_h d) (add32 (mul32 4 kGap) (mul32 2 (side_' s)))
         then (mul32 2 kGap, div32 (sub32 (window_h d) 2) (add32 2 (side_' s)))
         else (div32 (sub32 (window_h d) height) 2, div32 (add32 height 2) (add32 (side_' s) 2)))"

definition init_cells_' :: "Display \<Rightarrow> CellGrand \<Rightarrow> error + CellGrand" where
  "init_cells_' d s =
     (let start_pos_x = fst (layout_x d s); w = snd (layout_x d s);
          start_pos_y = fst (layout_y d s); h = snd (layout_y d s);
          cell_count = mul32 w h
      in if \<not> cell_count \<le> MAX_CELL_COUNT then Inl CellCountExceeded
         else (case fold (\<lambda>i. fold (init_cell (side_' s) w start_pos_x start_pos_y i)
                                      (map int [0..<nat h]))
                         (map int [0..<nat w]) (Inr (cells_' s)) of
                 Inl e \<Rightarrow> Inl e
               | Inr cs \<Rightarrow>
                   Inr (s\<lparr>w_' := w, h_' := h, cell_count_' := cell_count, cells_' := cs\<rparr>)))"

text \<open>
  The constructor (lines 97-101): \<open>check_valid\<close>, then the first layout. \<open>junk\<close> is the
  content of the uninitialised shapes; \<open>cell_count_\<close> has no initialiser either and is
  assigned by the layout before anything reads it.
\<close>

definition CellGrand_members :: "(nat \<Rightarrow> CellShape) \<Rightarrow> int \<Rightarrow> int \<Rightarrow> int \<Rightarrow> CellGrand" where
  "CellGrand_members junk side w h =
     \<lparr>side_' = side, w_' = w, h_' = h, cells_' = (\<lambda>i. Cell_default (junk i)),
      cell_count_' = 0, ready_' = 0, start_' = False\<rparr>"

definition CellGrand_new :: "(nat \<Rightarrow> CellShape) \<Rightarrow> Display \<Rightarrow> int \<Rightarrow> int \<Rightarrow> int \<Rightarrow> error + CellGrand" where
  "CellGrand_new junk d side w h =
     (if \<not> side \<ge> 3 then Inl SideTooSmall
      else init_cells_' d (CellGrand_members junk side w h))"

definition update_' :: "Display \<Rightarrow> CellGrand \<Rightarrow> error + CellGrand" where
  "update_' d s = (if \<not> scale_changed d then Inr s else init_cells_' d s)"

subsection \<open>Input: \<open>handle_input\<close> (lines 103-140)\<close>

datatype SDL_Button = SDL_BUTTON_LEFT | SDL_BUTTON_MIDDLE | SDL_BUTTON_RIGHT

datatype SDL_Scancode = SDL_SCANCODE_RETURN | SDL_SCANCODE_SPACE | SDL_SCANCODE_ESCAPE

datatype SDL_Event =
    SDL_EVENT_MOUSE_BUTTON_DOWN SDL_Button
  | SDL_EVENT_MOUSE_MOTION
  | SDL_EVENT_KEY_DOWN SDL_Scancode

text \<open>
  \<open>mouse_x\<close> and \<open>mouse_y\<close> are the pointer coordinates after the division by the scale
  (lines 106-107). \<open>hovers\<close> is the test of lines 109-110.
\<close>

definition hovers :: "int \<Rightarrow> real \<Rightarrow> real \<Rightarrow> Cell \<Rightarrow> bool" where
  "hovers side mouse_x mouse_y c =
     (mouse_x \<ge> of_int (rect_x (get_shape c)) \<and> mouse_x \<le> of_int (rect_x (get_shape c) + side) \<and>
      mouse_y \<ge> of_int (rect_y (get_shape c)) \<and> mouse_y \<le> of_int (rect_y (get_shape c) + side))"

definition handle_cell :: "SDL_Event \<Rightarrow> real \<Rightarrow> real \<Rightarrow> nat \<Rightarrow> CellGrand \<Rightarrow> CellGrand" where
  "handle_cell event mouse_x mouse_y i s =
     (let s1 = s\<lparr>cells_' := (cells_' s)(i :=
                   set_wait_state (hovers (side_' s) mouse_x mouse_y (cells_' s i)) (cells_' s i))\<rparr>
      in if \<not> start_' s1 \<and> get_wait_state (cells_' s1 i) \<and>
            event = SDL_EVENT_MOUSE_BUTTON_DOWN SDL_BUTTON_LEFT
         then (if \<not> get_active_state (cells_' s1 i)
               then s1\<lparr>cells_' := (cells_' s1)(i := set_active_state True (cells_' s1 i)),
                       ready_' := ready_' s1 + 1\<rparr>
               else s1\<lparr>cells_' := (cells_' s1)(i := set_active_state False (cells_' s1 i)),
                       ready_' := ready_' s1 - 1\<rparr>)
         else s1)"

definition handle_key :: "SDL_Event \<Rightarrow> CellGrand \<Rightarrow> CellGrand" where
  "handle_key event s =
     (case event of
        SDL_EVENT_KEY_DOWN scancode \<Rightarrow>
          (if ready_' s > 0
           then (if scancode = SDL_SCANCODE_RETURN then s\<lparr>start_' := \<not> start_' s\<rparr> else s)
           else s)
      | _ \<Rightarrow> s)"

definition handle_stop :: "CellGrand \<Rightarrow> CellGrand" where
  "handle_stop s = (if start_' s \<and> ready_' s \<le> 0 then s\<lparr>start_' := False, ready_' := 0\<rparr> else s)"

definition handle_input :: "SDL_Event \<Rightarrow> real \<Rightarrow> real \<Rightarrow> CellGrand \<Rightarrow> CellGrand" where
  "handle_input event mouse_x mouse_y s =
     handle_stop (handle_key event
       (fold (handle_cell event mouse_x mouse_y) [0..<nat (cell_count_' s)] s))"

text \<open>
  A run of input events, each with the pointer position that \<open>handle_input\<close> finds when
  it is called (\<open>SDL_AppEvent\<close>, line 334).
\<close>

definition handle_events :: "(SDL_Event \<times> real \<times> real) list \<Rightarrow> CellGrand \<Rightarrow> CellGrand" where
  "handle_events evs s = fold (\<lambda>ev. handle_input (fst ev) (fst (snd ev)) (snd (snd ev))) evs s"

subsection \<open>The step: \<open>ai_\<close> (lines 166-215)\<close>

text \<open>
  The eight probes of lines 180-187, in the order of the source: the guard of each and
  the index it reads when the guard holds.
\<close>

definition around :: "int \<Rightarrow> int \<Rightarrow> int \<Rightarrow> int \<Rightarrow> (bool \<times> int) list" where
  "around w h i j =
     [(i > 0 \<and> j > 0, (i - 1) * w + (j - 1)),
      (j > 0,          i * w + (j - 1)),
      (i < w \<and> j > 0, (i + 1) * w + (j - 1)),
      (i < w,          (i + 1) * w + j),
      (i < w \<and> j < h, (i + 1) * w + (j + 1)),
      (j < h,          i * w + (j + 1)),
      (i > 0 \<and> j < h, (i - 1) * w + (j + 1)),
      (i > 0,          (i - 1) * w + j)]"

text \<open>The indices of \<open>cells_\<close> that the probes of cell \<open>(i, j)\<close> read.\<close>

definition around_reads :: "int \<Rightarrow> int \<Rightarrow> int \<Rightarrow> int \<Rightarrow> int list" where
  "around_reads w h i j = map snd (filter fst (around w h i j))"

text \<open>
  The variables that the evaluation pass carries from one cell to the next:
  the local \<open>check_around\<close> (declared at line 167, before the loops), the array, the
  counter \<open>ready_\<close> and the random source.
\<close>

record ai_locals =
  check_around :: int
  cells :: "nat \<Rightarrow> Cell"
  ready :: int
  mt :: mt19937

definition probe :: "(nat \<Rightarrow> Cell) \<Rightarrow> bool \<times> int \<Rightarrow> int \<Rightarrow> int" where
  "probe cs p c = (if fst p \<and> get_active_state (cs (nat (snd p))) then c + 1 else c)"

definition ai_shake :: "bool \<Rightarrow> nat \<Rightarrow> ai_locals \<Rightarrow> ai_locals" where
  "ai_shake start k L =
     (if \<not> start \<and> get_active_state (cells L k)
      then (let a = Random_get (- 1) 1 (mt L); b = Random_get (- 1) 1 (snd a)
            in L\<lparr>cells := (cells L)(k := set_shake (fst a, fst b) (cells L k)), mt := snd b\<rparr>)
      else L\<lparr>cells := (cells L)(k := set_shake (0, 0) (cells L k))\<rparr>)"

definition ai_motion :: "int \<Rightarrow> int \<Rightarrow> int \<Rightarrow> int \<Rightarrow> ai_locals \<Rightarrow> ai_locals" where
  "ai_motion w h i j L =
     (let k = nat (i * w + j);
          L1 = L\<lparr>check_around := fold (probe (cells L)) (around w h i j) (check_around L)\<rparr>
      in if \<not> get_active_state (cells L1 k)
         then (if check_around L1 = 3
               then L1\<lparr>cells := (cells L1)(k := set_active_change True (cells L1 k)),
                       ready := ready L1 + 1\<rparr>
               else L1)
         else (if check_around L1 < 2 \<or> check_around L1 > 3
               then L1\<lparr>cells := (cells L1)(k := set_active_change True (cells L1 k)),
                       ready := ready L1 - 1\<rparr>
               else L1))"

definition ai_visit :: "int \<Rightarrow> int \<Rightarrow> bool \<Rightarrow> int \<Rightarrow> int \<Rightarrow> ai_locals \<Rightarrow> ai_locals" where
  "ai_visit w h start i j L =
     (let L1 = ai_shake start (nat (i * w + j)) L
      in if start then ai_motion w h i j L1 else L1)"

definition ai_evaluate :: "mt19937 \<Rightarrow> CellGrand \<Rightarrow> ai_locals" where
  "ai_evaluate g s =
     fold (\<lambda>i. fold (ai_visit (w_' s) (h_' s) (start_' s) i) (map int [0..<nat (h_' s)]))
          (map int [0..<nat (w_' s)])
          \<lparr>check_around = 0, cells = cells_' s, ready = ready_' s, mt = g\<rparr>"

definition commit_cell :: "nat \<Rightarrow> (nat \<Rightarrow> Cell) \<Rightarrow> (nat \<Rightarrow> Cell)" where
  "commit_cell i cs =
     (if get_active_change (cs i)
      then cs(i := set_active_change False (set_active_state (\<not> get_active_state (cs i)) (cs i)))
      else cs)"

definition ai_commit :: "int \<Rightarrow> (nat \<Rightarrow> Cell) \<Rightarrow> (nat \<Rightarrow> Cell)" where
  "ai_commit cell_count cs = fold commit_cell [0..<nat cell_count] cs"

definition ai_' :: "mt19937 \<Rightarrow> CellGrand \<Rightarrow> mt19937 \<times> CellGrand" where
  "ai_' g s =
     (let L = ai_evaluate g s
      in (mt L, s\<lparr>cells_' := ai_commit (cell_count_' s) (cells L), ready_' := ready L\<rparr>))"

subsection \<open>The frame: \<open>play\<close> (lines 142-147)\<close>

text \<open>\<open>draw_cells_\<close> (lines 217-245) only reads the members and issues render calls.\<close>

definition draw_cells_' :: "CellGrand \<Rightarrow> CellGrand" where
  "draw_cells_' s = s"

definition play :: "Display \<Rightarrow> mt19937 \<Rightarrow> CellGrand \<Rightarrow> error + (bool \<times> mt19937 \<times> CellGrand)" where
  "play d g s =
     (case update_' d s of
        Inl e \<Rightarrow> Inl e
      | Inr s1 \<Rightarrow>
          (let r = ai_' g s1; s3 = draw_cells_' (snd r)
           in Inr (start_' s3, fst r, s3)))"

subsection \<open>The step rule in the words of the specification\<close>

text \<open>
  The positions of the Moore neighbourhood of \<open>(i, j)\<close> that lie inside
  \<open>[0, columns) \<times> [0, rows)\<close>, and the number of them that are active in a state. The
  cell \<open>(i, j)\<close> is the element \<open>i * columns + j\<close> of the array, as in the source.
\<close>

definition spec_moore :: "int \<Rightarrow> int \<Rightarrow> int \<Rightarrow> int \<Rightarrow> (int \<times> int) list" where
  "spec_moore columns rows i j =
     filter (\<lambda>p. 0 \<le> fst p \<and> fst p < columns \<and> 0 \<le> snd p \<and> snd p < rows \<and> p \<noteq> (i, j))
            (List.product [i - 1, i, i + 1] [j - 1, j, j + 1])"

definition spec_neighbor_count :: "CellGrand \<Rightarrow> int \<Rightarrow> int \<Rightarrow> nat" where
  "spec_neighbor_count s i j =
     length (filter (\<lambda>p. is_active_' (cells_' s (nat (fst p * w_' s + snd p))))
                    (spec_moore (w_' s) (h_' s) i j))"

text \<open>
  Containment of the jitter of one cell in editing mode: zero on an inactive cell, and
  each component one of -1, 0 and 1.
\<close>

definition jitter_contained :: "Cell \<Rightarrow> bool" where
  "jitter_contained c =
     ((is_active_' c \<or> shake_' c = (0, 0)) \<and>
      fst (shake_' c) \<in> {- 1, 0, 1} \<and> snd (shake_' c) \<in> {- 1, 0, 1})"

text \<open>The pixel footprint of \<open>count\<close> cells in a row with the gaps between them.\<close>

definition footprint :: "int \<Rightarrow> int \<Rightarrow> int" where
  "footprint side count = count * side + kGap * (count - 1)"

text \<open>
  A side, a requested count and a display extent small enough for the pixel arithmetic
  of one axis to stay within 32 bits.
\<close>

definition pixel_range :: "int \<Rightarrow> int \<Rightarrow> int \<Rightarrow> bool" where
  "pixel_range side count window =
     ((side + 2) * (\<bar>count\<bar> + 2) < 1073741824 \<and> window < 1073741824)"

text \<open>The number of active cells among the first \<open>n\<close> elements of the array.\<close>

primrec count_active :: "nat \<Rightarrow> (nat \<Rightarrow> Cell) \<Rightarrow> int" where
  "count_active 0 cs = 0"
| "count_active (Suc n) cs = count_active n cs + (if is_active_' (cs n) then 1 else 0)"

subsection \<open>Sessions\<close>

text \<open>
  A window of 100 by 100 logical pixels, cells of side 8. Memory is zeroed, the
  generator yields 0, 1, 2, ... A grid of three columns has its cells at x = 36, 46, 56.
\<close>

definition zero_shapes :: "nat \<Rightarrow> CellShape" where
  "zero_shapes i = \<lparr>rect_x = 0, rect_y = 0, rect_w = 0, rect_h = 0\<rparr>"

definition display_100 :: Display where
  "display_100 = \<lparr>scale_changed = False, window_w = 100, window_h = 100\<rparr>"

definition display_100_rescaled :: Display where
  "display_100_rescaled = \<lparr>scale_changed = True, window_w = 100, window_h = 100\<rparr>"

definition display_40 :: Display where
  "display_40 = \<lparr>scale_changed = False, window_w = 40, window_h = 100\<rparr>"

definition mt_count :: mt19937 where
  "mt_count n = n"

definition left_click :: "real \<Rightarrow> real \<Rightarrow> CellGrand \<Rightarrow> CellGrand" where
  "left_click mouse_x mouse_y s =
     handle_input (SDL_EVENT_MOUSE_BUTTON_DOWN SDL_BUTTON_LEFT) mouse_x mouse_y s"

definition press_return :: "CellGrand \<Rightarrow> CellGrand" where
  "press_return s = handle_input (SDL_EVENT_KEY_DOWN SDL_SCANCODE_RETURN) (- 1) (- 1) s"

definition frame :: "Display \<Rightarrow> CellGrand \<Rightarrow> CellGrand" where
  "frame d s = snd (snd (projr (play d mt_count s)))"

definition grid_1x1 :: CellGrand where
  "grid_1x1 = projr (CellGrand_new zero_shapes display_100 8 1 1)"

definition grid_3x3 :: CellGrand where
  "grid_3x3 = projr (CellGrand_new zero_shapes display_100 8 3 3)"

definition grid_3x2 :: CellGrand where
  "grid_3x2 = projr (CellGrand_new zero_shapes display_100 8 3 2)"

text \<open>One cell toggled on, then the return key: the engine runs with one active cell.\<close>

definition lone_cell :: CellGrand where
  "lone_cell = press_return (left_click 47 47 grid_1x1)"

definition lone_centre :: CellGrand where
  "lone_centre = press_return (left_click 47 47 grid_3x3)"

definition lone_corner :: CellGrand where
  "lone_corner = press_return (left_click 37 42 grid_3x2)"

text \<open>
  A session that changes the layout: the cell \<open>(0, 2)\<close> of the 3 by 3 grid, element 2
  of the array, is toggled on and one frame passes in editing mode; then the scale
  changes while the display is 100 by 30, and the layout keeps 3 columns and 2 rows.
  After that either the return key is pressed, or the same cell is clicked again, and
  one more frame passes.
\<close>

definition display_30 :: Display where
  "display_30 = \<lparr>scale_changed = False, window_w = 100, window_h = 30\<rparr>"

definition display_30_rescaled :: Display where
  "display_30_rescaled = \<lparr>scale_changed = True, window_w = 100, window_h = 30\<rparr>"

definition shaken_edge :: CellGrand where
  "shaken_edge = frame display_100 (left_click 37 57 grid_3x3)"

definition shrunk :: CellGrand where
  "shrunk = frame display_30_rescaled shaken_edge"

definition shrunk_running :: CellGrand where
  "shrunk_running = frame display_30 (press_return shrunk)"

definition shrunk_editing :: CellGrand where
  "shrunk_editing = frame display_30 (left_click 37 57 shrunk)"

text \<open>
  A display of 1920 by 1080 logical pixels, and a row of 200 cells of side 3 in it.
\<close>

definition display_1920 :: Display where
  "display_1920 = \<lparr>scale_changed = False, window_w = 1920, window_h = 1080\<rparr>"

text \<open>
  A grid of 2 columns and 3 rows; the elements 0, 1 and 2 are toggled on, then the
  return key.
\<close>

definition grid_2x3 :: CellGrand where
  "grid_2x3 = projr (CellGrand_new zero_shapes display_100 8 2 3)"

definition three_cells :: CellGrand where
  "three_cells = press_return (left_click 52 37 (left_click 42 47 (left_click 42 37 grid_2x3)))"

section \<open>Properties\<close>

subsection \<open>Members that a call leaves alone\<close>

lemma fold_handle_cell_frame:
  "start_' (fold (handle_cell e mx my) xs s) = start_' s \<and>
   side_' (fold (handle_cell e mx my) xs s) = side_' s \<and>
   w_' (fold (handle_cell e mx my) xs s) = w_' s \<and>
   h_' (fold (handle_cell e mx my) xs s) = h_' s \<and>
   cell_count_' (fold (handle_cell e mx my) xs s) = cell_count_' s"
  by (induction xs arbitrary: s) (simp_all add: handle_cell_def Let_def)

lemma fold_handle_cell_running:
  "start_' s \<Longrightarrow> ready_' (fold (handle_cell e mx my) xs s) = ready_' s"
  by (induction xs arbitrary: s) (simp_all add: handle_cell_def Let_def)

lemma ai_frame:
  "start_' (snd (ai_' g s)) = start_' s \<and> side_' (snd (ai_' g s)) = side_' s \<and>
   w_' (snd (ai_' g s)) = w_' s \<and> h_' (snd (ai_' g s)) = h_' s \<and>
   cell_count_' (snd (ai_' g s)) = cell_count_' s"
  by (simp add: ai_'_def Let_def)

text \<open>
  The loops of the layout: they fail exactly when a write leaves the array, and otherwise
  they are the plain sequence of writes.
\<close>

lemma fold_init_cell_Inl: "fold (init_cell side w sx sy i) js (Inl e) = Inl e"
  by (induction js) (simp_all add: init_cell_def)

lemma fold_init_cell_Inr:
  "fold (init_cell side w sx sy i) js (Inr cs) =
     (if list_all (\<lambda>j. in_array (cell_index w i j)) js
      then Inr (fold (init_write side w sx sy i) js cs) else Inl ArrayOverrun)"
  by (induction js arbitrary: cs) (simp_all add: init_cell_def fold_init_cell_Inl)

lemma fold_fold_init_cell_Inl:
  "fold (\<lambda>i. fold (init_cell side w sx sy i) js) is (Inl e) = Inl e"
  by (induction "is") (simp_all add: fold_init_cell_Inl)

lemma fold_fold_init_cell_Inr:
  "fold (\<lambda>i. fold (init_cell side w sx sy i) js) is (Inr cs) =
     (if list_all (\<lambda>i. list_all (\<lambda>j. in_array (cell_index w i j)) js) is
      then Inr (fold (\<lambda>i. fold (init_write side w sx sy i) js) is cs) else Inl ArrayOverrun)"
  by (induction "is" arbitrary: cs)
    (simp_all add: fold_init_cell_Inr fold_fold_init_cell_Inl)

lemma init_cells_outcome:
  "init_cells_' d s =
     (if \<not> mul32 (snd (layout_x d s)) (snd (layout_y d s)) \<le> MAX_CELL_COUNT
      then Inl CellCountExceeded
      else if \<not> layout_in_array (snd (layout_x d s)) (snd (layout_y d s))
      then Inl ArrayOverrun
      else Inr (s\<lparr>w_' := snd (layout_x d s), h_' := snd (layout_y d s),
                  cell_count_' := mul32 (snd (layout_x d s)) (snd (layout_y d s)),
                  cells_' := fold (\<lambda>i. fold (init_write (side_' s) (snd (layout_x d s))
                                                (fst (layout_x d s)) (fst (layout_y d s)) i)
                                              (map int [0..<nat (snd (layout_y d s))]))
                                  (map int [0..<nat (snd (layout_x d s))]) (cells_' s)\<rparr>))"
  by (simp add: init_cells_'_def Let_def fold_fold_init_cell_Inr layout_in_array_def)

lemma init_cells_frame:
  "init_cells_' d s = Inr s' \<Longrightarrow>
   start_' s' = start_' s \<and> ready_' s' = ready_' s \<and> side_' s' = side_' s"
  by (auto simp: init_cells_outcome split: if_splits)

lemma init_cells_error:
  "init_cells_' d s = Inl e \<Longrightarrow> e = CellCountExceeded \<or> e = ArrayOverrun"
  by (auto simp: init_cells_outcome split: if_splits)

lemma update_frame:
  "update_' d s = Inr s' \<Longrightarrow> start_' s' = start_' s"
  by (auto simp: update_'_def dest: init_cells_frame split: if_splits)

lemma update_error:
  "update_' d s = Inl e \<Longrightarrow> scale_changed d \<and> init_cells_' d s = Inl e"
  by (auto simp: update_'_def split: if_splits)

lemma play_result:
  "play d g s = Inr (b, g', s') \<Longrightarrow> b = start_' s' \<and> start_' s' = start_' s"
proof (cases "update_' d s")
  case (Inl e)
  assume "play d g s = Inr (b, g', s')"
  with Inl show ?thesis by (simp add: play_def)
next
  case (Inr s1)
  assume "play d g s = Inr (b, g', s')"
  moreover obtain g1 s2 where ai: "ai_' g s1 = (g1, s2)"
    by (cases "ai_' g s1") auto
  ultimately have "s' = s2" "b = start_' s2"
    using Inr by (auto simp: play_def Let_def draw_cells_'_def)
  with ai have "s' = snd (ai_' g s1)" "b = start_' (snd (ai_' g s1))"
    by simp_all
  then show ?thesis
    using ai_frame [of g s1] update_frame [OF Inr] by simp
qed

lemma play_error:
  "play d g s = Inl e \<Longrightarrow> scale_changed d \<and> init_cells_' d s = Inl e"
  by (auto simp: play_def Let_def dest: update_error split: sum.splits)

lemma handle_input_stops:
  assumes "start_' s" and "ready_' s \<le> 0"
  shows "start_' (handle_input e mx my s) = False \<and> ready_' (handle_input e mx my s) = 0"
  using assms
  by (simp add: handle_input_def handle_stop_def handle_key_def fold_handle_cell_frame
      fold_handle_cell_running split: SDL_Event.splits)

subsection \<open>The value of \<open>play\<close>\<close>

text \<open>
  C10. \<open>play\<close> returns the running flag of the state it leaves: either the re-layout of
  this frame does not complete (its capacity assertion fails, or its loop leaves the
  array), or the call returns \<open>start_\<close> as it stands after the pass, which is also what it
  was before the pass.
\<close>

theorem play_returns_running_flag:
  "(isl (play d g s) \<and> scale_changed d \<and>
    init_cells_' d s = Inl (projl (play d g s)) \<and>
    (projl (play d g s) = CellCountExceeded \<or> projl (play d g s) = ArrayOverrun)) \<or>
   (play d g s = Inr (start_' (snd (snd (projr (play d g s)))),
                      fst (snd (projr (play d g s))), snd (snd (projr (play d g s)))) \<and>
    start_' (snd (snd (projr (play d g s)))) = start_' s)"
proof (cases "play d g s")
  case (Inl e)
  then show ?thesis
    using play_error [of d g s e] init_cells_error [of d s e] by simp
next
  case (Inr r)
  obtain b g' s' where r: "r = (b, g', s')"
    by (cases r) auto
  with Inr show ?thesis
    using play_result [of d g s b g' s'] by simp
qed

subsection \<open>When a run stops\<close>

lemma lone_cell_frame:
  "start_' lone_cell \<and> \<not> isl (play display_100 mt_count lone_cell) \<and>
   ready_' (frame display_100 lone_cell) = 0 \<and> start_' (frame display_100 lone_cell)"
  by code_simp

text \<open>
  C3, as the specification states it, fails: a running 1 by 1 grid whose only cell is
  active loses the cell in one frame, \<open>ready_\<close> is 0 after the commit pass, and the engine
  is still running when the frame ends.
\<close>

theorem auto_stop_within_advance_counterexample:
  "start_' lone_cell \<and> ready_' (frame display_100 lone_cell) \<le> 0 \<and>
   \<not> (start_' (frame display_100 lone_cell) = False \<and> ready_' (frame display_100 lone_cell) = 0)"
  by code_simp

text \<open>
  C3, amended. \<open>ai_\<close> never writes \<open>start_\<close>: after a frame in running mode that leaves
  \<open>ready_ \<le> 0\<close> the engine is still running and \<open>play\<close> returns true. The test of lines
  136-139 sits at the end of \<open>handle_input\<close>: a call of \<open>handle_input\<close> on the state that
  this frame left, whatever its event, puts the engine back into editing mode with
  \<open>ready_ = 0\<close>.
\<close>

theorem auto_stop_at_next_input:
  assumes "start_' s" and "play d g s = Inr (b, g', s')" and "ready_' s' \<le> 0"
  shows "b \<and> start_' s' \<and>
         start_' (handle_input e mx my s') = False \<and> ready_' (handle_input e mx my s') = 0"
proof -
  have "b = start_' s'" "start_' s' = start_' s"
    using play_result [OF assms(2)] by simp_all
  with assms(1) have run: "start_' s'" "b" by simp_all
  with handle_input_stops [OF run(1) assms(3)] show ?thesis by simp
qed

theorem auto_stop_at_next_input_witness:
  "start_' lone_cell \<and> ready_' (frame display_100 lone_cell) \<le> 0 \<and>
   start_' (frame display_100 lone_cell) \<and>
   start_' (handle_input SDL_EVENT_MOUSE_MOTION 0 0 (frame display_100 lone_cell)) = False \<and>
   ready_' (handle_input SDL_EVENT_MOUSE_MOTION 0 0 (frame display_100 lone_cell)) = 0"
proof -
  have a: "start_' lone_cell"
    using lone_cell_frame by simp
  have "\<not> isl (play display_100 mt_count lone_cell)"
    using lone_cell_frame by simp
  then have b: "play display_100 mt_count lone_cell =
      Inr (fst (projr (play display_100 mt_count lone_cell)),
           fst (snd (projr (play display_100 mt_count lone_cell))),
           frame display_100 lone_cell)"
    by (simp add: frame_def)
  have c: "ready_' (frame display_100 lone_cell) \<le> 0"
    using lone_cell_frame by simp
  show ?thesis
    using auto_stop_at_next_input [OF a b c, of SDL_EVENT_MOUSE_MOTION 0 0] a c by simp
qed

text \<open>
  The statement is about the state that the frame left. A frame that comes before the
  input runs the step once more, in running mode, and can leave \<open>ready_\<close> above zero:
  with 2 columns and 3 rows and the elements 0, 1 and 2 active, the first frame leaves
  \<open>ready_ = 0\<close>, the second \<open>ready_ = 1\<close>, and the input after it finds nothing to stop.
\<close>

lemma further_frame_revives_run:
  "start_' three_cells \<and>
   \<not> isl (play display_100 mt_count three_cells) \<and>
   ready_' (frame display_100 three_cells) = 0 \<and>
   \<not> isl (play display_100 mt_count (frame display_100 three_cells)) \<and>
   ready_' (frame display_100 (frame display_100 three_cells)) = 1 \<and>
   start_' (handle_input SDL_EVENT_MOUSE_MOTION 0 0
             (frame display_100 (frame display_100 three_cells)))"
  by code_simp

subsection \<open>The assertions and the array\<close>

text \<open>
  The three ways a construction ends without an engine: the first assertion exactly
  when \<open>side < 3\<close>; the second exactly when \<open>side \<ge> 3\<close> and the derived \<open>w_ * h_\<close>, a 32-bit
  product, is above 16384; and, with both assertions passed, a write of the layout loop
  outside the array.
\<close>

lemma construction_outcomes:
  "(CellGrand_new junk d side w h = Inl SideTooSmall) = (side < 3) \<and>
   (CellGrand_new junk d side w h = Inl CellCountExceeded) =
     (3 \<le> side \<and> 16384 < mul32 (snd (layout_x d (CellGrand_members junk side w h)))
                                  (snd (layout_y d (CellGrand_members junk side w h)))) \<and>
   (CellGrand_new junk d side w h = Inl ArrayOverrun) =
     (3 \<le> side \<and> mul32 (snd (layout_x d (CellGrand_members junk side w h)))
                         (snd (layout_y d (CellGrand_members junk side w h))) \<le> 16384 \<and>
      \<not> layout_in_array (snd (layout_x d (CellGrand_members junk side w h)))
                         (snd (layout_y d (CellGrand_members junk side w h))))"
  by (auto simp: CellGrand_new_def init_cells_outcome MAX_CELL_COUNT_def)

lemma wide_row_layout:
  "snd (layout_x display_1920 (CellGrand_members zero_shapes 3 200 1)) = 200 \<and>
   snd (layout_y display_1920 (CellGrand_members zero_shapes 3 200 1)) = 1 \<and>
   mul32 200 1 = 200 \<and> cell_index 200 81 0 = 16200 \<and> cell_index 200 82 0 = 16400 \<and>
   cell_index 200 199 0 = 39800 \<and> \<not> in_array 16400 \<and> \<not> layout_in_array 200 1"
  by code_simp

text \<open>
  C8. A configuration within both bounds whose construction does not succeed: side 3,
  200 columns and 1 row in a display of 1920 by 1080. Both assertions pass
  (\<open>side_ = 3\<close>, \<open>w_ * h_ = 200\<close>), and the loop of lines 293-300 writes the element
  \<open>i * w_ + j = 200 * i\<close> for every \<open>i < 200\<close>: from \<open>i = 82\<close> on, element 16400, up to element
  39800, outside the 16384 elements of \<open>cells_\<close>. The assertion of line 291 bounds
  \<open>w_ * h_\<close>, not the index \<open>i * w_ + j\<close>.
\<close>

theorem construction_overruns_array:
  "(3::int) \<le> 3 \<and>
   mul32 (snd (layout_x display_1920 (CellGrand_members zero_shapes 3 200 1)))
         (snd (layout_y display_1920 (CellGrand_members zero_shapes 3 200 1))) = 200 \<and>
   cell_index 200 82 0 = 16400 \<and> MAX_CELL_COUNT \<le> cell_index 200 82 0 \<and>
   cell_index 200 199 0 = 39800 \<and>
   CellGrand_new zero_shapes display_1920 3 200 1 = Inl ArrayOverrun"
proof -
  have "CellGrand_new zero_shapes display_1920 3 200 1 = Inl ArrayOverrun"
    using wide_row_layout
    by (simp add: CellGrand_new_def init_cells_outcome MAX_CELL_COUNT_def)
  then show ?thesis
    using wide_row_layout by (simp add: MAX_CELL_COUNT_def)
qed

subsection \<open>Evaluations of the step\<close>

text \<open>
  C2. The guards of lines 182-186 are \<open>i < w_\<close> and \<open>j < h_\<close>, which hold for every cell of
  the grid, so the probes towards higher \<open>i\<close> and \<open>j\<close> are never skipped. In a 2 by 2 grid
  (four cells, indices 0 to 3) the cell \<open>(1, 1)\<close> reads the elements 4, 5 and 6 of the
  array, beyond \<open>w_ * h_\<close>.
\<close>

theorem neighbor_reads_leave_grid:
  "around_reads 2 2 1 1 = [0, 2, 4, 5, 6, 4, 2, 1] \<and> (2::int) * 2 \<le> 5"
  by code_simp

text \<open>
  C1. \<open>check_around\<close> is declared once, before the loops (line 167), and is never set back
  to zero: each cell is judged on the sum of the counts of all cells visited so far. In
  a running 3 by 3 grid whose only active cell is the centre, the cell \<open>(0, 2)\<close> has one
  active neighbour; it is the third cell visited, the sum stands at 3, and it is born.
  The frame ends with \<open>ready_ = 1\<close> and the cell \<open>(0, 2)\<close> active.
\<close>

theorem neighbor_count_carried_over:
  "start_' lone_centre \<and> w_' lone_centre = 3 \<and> h_' lone_centre = 3 \<and>
   map (\<lambda>k. is_active_' (cells_' lone_centre k)) [0..<9] =
     [False, False, False, False, True, False, False, False, False] \<and>
   spec_neighbor_count lone_centre 0 2 = 1 \<and>
   map (\<lambda>k. is_active_' (cells_' (frame display_100 lone_centre) k)) [0..<9] =
     [False, False, True, False, False, False, False, False, False] \<and>
   ready_' (frame display_100 lone_centre) = 1"
  by code_simp

text \<open>
  C6. The evaluation pass marks the element \<open>i * w_ + j\<close>; the commit pass clears the
  elements below \<open>w_ * h_\<close>. In a running grid of 3 columns and 2 rows with the cell
  \<open>(0, 0)\<close> active, one frame marks the cell \<open>(2, 0)\<close>, element 6 of the array, and the
  commit pass stops at element 5: the flag is still set when the frame ends, and so at
  the start of the next one.
\<close>

theorem pending_flag_survives_commit:
  "start_' lone_corner \<and> w_' lone_corner = 3 \<and> h_' lone_corner = 2 \<and>
   cell_count_' lone_corner = 6 \<and>
   map (\<lambda>k. active_change (cells_' lone_corner k)) [0..<9] = replicate 9 False \<and>
   \<not> isl (play display_100 mt_count lone_corner) \<and>
   active_change (cells_' (frame display_100 lone_corner) (nat (2 * 3 + 0)))"
  by code_simp

subsection \<open>Evaluations of the layout\<close>

text \<open>
  C4. \<open>init_cells_\<close> writes the cells and never \<open>ready_\<close>. A 3 by 3 grid in editing mode
  with the centre toggled on has \<open>ready_ = 1\<close>; a frame that sees a new scale lays the
  grid out again, every cell is inactive afterwards, and \<open>ready_\<close> is still 1.
\<close>

theorem relayout_keeps_ready:
  "ready_' (left_click 47 47 grid_3x3) = 1 \<and>
   count_active 9 (cells_' (left_click 47 47 grid_3x3)) = 1 \<and>
   \<not> isl (play display_100_rescaled mt_count (left_click 47 47 grid_3x3)) \<and>
   count_active 9 (cells_' (frame display_100_rescaled (left_click 47 47 grid_3x3))) = 0 \<and>
   ready_' (frame display_100_rescaled (left_click 47 47 grid_3x3)) = 1"
  by code_simp

subsection \<open>The fit of the layout\<close>

lemma cdiv_nonneg: "0 \<le> a \<Longrightarrow> 0 < b \<Longrightarrow> cdiv a b = a div b"
  by (cases "a = 0") (simp_all add: cdiv_def)

lemma cdiv_mult_self: "0 < b \<Longrightarrow> cdiv (c * b) b = c"
  by (simp add: cdiv_def abs_mult sgn_mult abs_mult_sgn mult.commute)

lemma footprint_alt: "footprint side c = c * (side + 2) - 2"
  by (simp add: footprint_def kGap_def algebra_simps)

lemma mult_le_iff_le_div:
  fixes a b c :: int
  assumes "0 < b"
  shows "c * b \<le> a \<longleftrightarrow> c \<le> a div b"
proof
  assume "c * b \<le> a"
  then have "(c * b) div b \<le> a div b"
    using assms by (rule zdiv_mono1)
  then show "c \<le> a div b"
    using assms by simp
next
  assume "c \<le> a div b"
  then have "c * b \<le> (a div b) * b"
    using assms by (simp add: mult_right_mono)
  also have "\<dots> = a - a mod b"
    by (simp add: minus_mod_eq_div_mult)
  also have "\<dots> \<le> a"
    using assms by simp
  finally show "c * b \<le> a" .
qed

lemma footprint_fits_iff:
  assumes "0 < side + 2"
  shows "footprint side c \<le> a - 4 \<longleftrightarrow> c \<le> (a - 2) div (side + 2)"
proof -
  have "footprint side c \<le> a - 4 \<longleftrightarrow> c * (side + 2) \<le> a - 2"
    unfolding footprint_alt by linarith
  then show ?thesis
    using mult_le_iff_le_div [OF assms, of c "a - 2"] by simp
qed

text \<open>Arithmetic that stays within 32 bits is not changed by the wrap.\<close>

lemma wrap32_id: "- 2147483648 \<le> x \<Longrightarrow> x < 2147483648 \<Longrightarrow> wrap32 x = x"
  by (simp add: wrap32_def)

lemma cdiv_abs_le: "\<bar>cdiv a b\<bar> \<le> \<bar>a\<bar>"
proof -
  have q0: "0 \<le> \<bar>a\<bar> div \<bar>b\<bar>"
    by (cases "b = 0") (simp_all add: pos_imp_zdiv_nonneg_iff)
  have q1: "\<bar>a\<bar> div \<bar>b\<bar> \<le> \<bar>a\<bar>"
  proof (cases "b = 0")
    case True
    then show ?thesis by simp
  next
    case False
    then have "\<bar>a\<bar> div \<bar>b\<bar> \<le> \<bar>a\<bar> div 1"
      by (intro zdiv_mono2) simp_all
    then show ?thesis by simp
  qed
  have "\<bar>sgn a * sgn b\<bar> \<le> 1"
    by (simp add: abs_mult abs_sgn_eq)
  then have "\<bar>sgn a * sgn b\<bar> * (\<bar>a\<bar> div \<bar>b\<bar>) \<le> 1 * (\<bar>a\<bar> div \<bar>b\<bar>)"
    using q0 by (rule mult_right_mono)
  moreover have "\<bar>cdiv a b\<bar> = \<bar>sgn a * sgn b\<bar> * (\<bar>a\<bar> div \<bar>b\<bar>)"
    using q0 by (simp add: cdiv_def abs_mult)
  ultimately show ?thesis
    using q1 by simp
qed

lemma div32_id: "\<bar>a\<bar> < 2147483648 \<Longrightarrow> div32 a b = cdiv a b"
  using cdiv_abs_le [of a b] by (simp add: div32_def wrap32_id)

lemma axis_exact:
  assumes "3 \<le> side" and "2 \<le> window" and "pixel_range side count window"
  shows "(let width = add32 (mul32 side count) (mul32 kGap (sub32 count 1))
          in if width > sub32 window (add32 (mul32 4 kGap) (mul32 2 side))
             then (mul32 2 kGap, div32 (sub32 window 2) (add32 2 side))
             else (div32 (sub32 window width) 2, div32 (add32 width 2) (add32 side 2))) =
         (if window - (4 * kGap + 2 * side) < footprint side count
          then (2 * kGap, cdiv (window - 2) (2 + side))
          else (cdiv (window - footprint side count) 2,
                cdiv (footprint side count + 2) (side + 2)))"
proof -
  have "(side + 2) * (\<bar>count\<bar> + 2) = \<bar>side * count\<bar> + 2 * side + 2 * \<bar>count\<bar> + 4"
    using assms(1) by (simp add: algebra_simps abs_mult)
  then have p: "\<bar>side * count\<bar> + 2 * side + 2 * \<bar>count\<bar> + 4 < 1073741824"
    and win: "window < 1073741824"
    using assms(3) by (simp_all add: pixel_range_def)
  have w1: "mul32 side count = side * count"
    unfolding mul32_def using p assms(1) by (intro wrap32_id) linarith+
  have w2: "mul32 kGap (sub32 count 1) = 2 * (count - 1)"
    unfolding mul32_def sub32_def kGap_def using p assms(1)
    by (simp add: wrap32_id)
  have w3: "add32 (side * count) (2 * (count - 1)) = footprint side count"
    unfolding add32_def footprint_def kGap_def using p assms(1)
    by (simp add: wrap32_id mult.commute)
  have fp: "\<bar>footprint side count\<bar> < 1073741824"
    unfolding footprint_def kGap_def using p assms(1) by (simp add: mult.commute)
  have w4: "sub32 window (add32 (mul32 4 kGap) (mul32 2 side)) = window - (4 * kGap + 2 * side)"
    unfolding mul32_def sub32_def add32_def kGap_def using p assms(1,2) win
    by (simp add: wrap32_id)
  have w5: "mul32 2 kGap = 2 * kGap"
    by (simp add: mul32_def kGap_def wrap32_id)
  have w6: "div32 (sub32 window 2) (add32 2 side) = cdiv (window - 2) (2 + side)"
    unfolding sub32_def add32_def using p assms(1,2) win
    by (simp add: wrap32_id div32_id)
  have w7: "div32 (sub32 window (footprint side count)) 2 = cdiv (window - footprint side count) 2"
    unfolding sub32_def using fp assms(2) win
    by (simp add: wrap32_id div32_id)
  have w8: "div32 (add32 (footprint side count) 2) (add32 side 2) =
            cdiv (footprint side count + 2) (side + 2)"
    unfolding add32_def using fp p assms(1)
    by (simp add: wrap32_id div32_id)
  show ?thesis
    by (simp only: Let_def w1 w2 w3 w4 w5 w6 w7 w8)
qed

text \<open>One axis: \<open>count\<close> cells requested, \<open>window\<close> logical pixels available.\<close>

lemma axis_resized:
  assumes "3 \<le> side" and "2 \<le> window"
  shows "footprint side (cdiv (window - 2) (2 + side)) \<le> window - 2 * kGap \<and>
         (\<forall>c. footprint side c \<le> window - 2 * kGap \<longrightarrow> c \<le> cdiv (window - 2) (2 + side))"
proof -
  have pos: "0 < side + 2" using assms(1) by simp
  have eq: "cdiv (window - 2) (2 + side) = (window - 2) div (side + 2)"
    using cdiv_nonneg [of "window - 2" "2 + side"] assms by (simp add: add.commute)
  show ?thesis
    unfolding eq using footprint_fits_iff [OF pos, of _ window] by (simp add: kGap_def)
qed

lemma axis_kept:
  assumes "3 \<le> side"
  shows "cdiv (footprint side count + 2) (side + 2) = count"
proof -
  have "footprint side count + 2 = count * (side + 2)"
    by (simp add: footprint_alt)
  then show ?thesis
    using cdiv_mult_self [of "side + 2" count] assms by simp
qed

lemma axis_centred:
  assumes "3 \<le> side" and "footprint side count \<le> window - (4 * kGap + 2 * side)"
  shows "0 < cdiv (window - footprint side count) 2 \<and>
         (window - footprint side count - cdiv (window - footprint side count) 2)
           - cdiv (window - footprint side count) 2 \<in> {0, 1}"
proof -
  have "0 \<le> window - footprint side count"
    using assms by (simp add: kGap_def)
  then have eq: "cdiv (window - footprint side count) 2 = (window - footprint side count) div 2"
    by (simp add: cdiv_nonneg)
  have "14 \<le> window - footprint side count"
    using assms by (simp add: kGap_def)
  then show ?thesis
    unfolding eq by simp presburger
qed


lemma layout_x_footprint:
  assumes "3 \<le> side_' s" and "2 \<le> window_w d"
    and "pixel_range (side_' s) (w_' s) (window_w d)"
  shows "layout_x d s =
     (if window_w d - (4 * kGap + 2 * side_' s) < footprint (side_' s) (w_' s)
      then (2 * kGap, cdiv (window_w d - 2) (2 + side_' s))
      else (cdiv (window_w d - footprint (side_' s) (w_' s)) 2,
            cdiv (footprint (side_' s) (w_' s) + 2) (side_' s + 2)))"
  unfolding layout_x_def using assms by (rule axis_exact)

lemma layout_y_footprint:
  assumes "3 \<le> side_' s" and "2 \<le> window_h d"
    and "pixel_range (side_' s) (h_' s) (window_h d)"
  shows "layout_y d s =
     (if window_h d - (4 * kGap + 2 * side_' s) < footprint (side_' s) (h_' s)
      then (2 * kGap, cdiv (window_h d - 2) (2 + side_' s))
      else (cdiv (window_h d - footprint (side_' s) (h_' s)) 2,
            cdiv (footprint (side_' s) (h_' s) + 2) (side_' s + 2)))"
  unfolding layout_y_def using assms by (rule axis_exact)

lemma init_cells_counts:
  "init_cells_' d s = Inr s' \<Longrightarrow>
   w_' s' = snd (layout_x d s) \<and> h_' s' = snd (layout_y d s) \<and>
   cell_count_' s' = mul32 (snd (layout_x d s)) (snd (layout_y d s))"
  by (auto simp: init_cells_outcome split: if_splits)

text \<open>
  Beyond that range the products wrap: with a side of 536870912 and 6 columns requested
  in a width of 100, \<open>side_ * w_\<close> is negative as a 32-bit number, the test of line 272
  takes the centred branch, and the layout leaves \<open>w_ = -1\<close>.
\<close>

lemma layout_wraps:
  "mul32 536870912 6 = - 1073741824 \<and>
   layout_x display_100 (CellGrand_members zero_shapes 536870912 6 1) = (536870957, - 1)"
  by code_simp

text \<open>
  C5, as the specification states it, fails: with cells of side 8 and four columns
  requested in a width of 40, the layout keeps three columns, 28 pixels wide, and the
  width less the margin of 4 gaps and 2 sides is 16.
\<close>

theorem layout_within_margin_counterexample:
  "\<not> isl (CellGrand_new zero_shapes display_40 8 4 1) \<and>
   w_' (projr (CellGrand_new zero_shapes display_40 8 4 1)) = 3 \<and>
   \<not> footprint 8 (w_' (projr (CellGrand_new zero_shapes display_40 8 4 1)))
       \<le> window_w display_40 - (4 * kGap + 2 * 8)"
  by code_simp

text \<open>
  C5, amended. For a side of at least 3 and a display of at least 2 logical pixels each
  way, with side, requested counts and display within \<open>pixel_range\<close> (so that the 32-bit
  arithmetic of lines 271-287 does not wrap), on each axis: when the requested count
  does not fit the display less the margin
  of 4 gaps and 2 sides, the grid is anchored at 2 gaps and the new count is the largest
  whose footprint fits the display less those 2 gaps; when it fits, the count is kept,
  the footprint lies within the display less the margin, and the anchor \<open>start_pos\<close>
  centres the grid, the space after it being the space before it or one pixel more.
  The anchor is the origin of the cell \<open>(0, 0)\<close> (\<open>layout_origin\<close> at the end).
\<close>

theorem layout_fit:
  assumes "3 \<le> side_' s" and "2 \<le> window_w d" and "2 \<le> window_h d"
    and "pixel_range (side_' s) (w_' s) (window_w d)"
    and "pixel_range (side_' s) (h_' s) (window_h d)"
    and "init_cells_' d s = Inr s'"
  shows
    "(if window_w d - (4 * kGap + 2 * side_' s) < footprint (side_' s) (w_' s)
      then fst (layout_x d s) = 2 * kGap \<and>
           footprint (side_' s) (w_' s') \<le> window_w d - 2 * kGap \<and>
           (\<forall>c. footprint (side_' s) c \<le> window_w d - 2 * kGap \<longrightarrow> c \<le> w_' s')
      else w_' s' = w_' s \<and>
           footprint (side_' s) (w_' s') \<le> window_w d - (4 * kGap + 2 * side_' s) \<and>
           0 < fst (layout_x d s) \<and>
           (window_w d - footprint (side_' s) (w_' s') - fst (layout_x d s))
             - fst (layout_x d s) \<in> {0, 1}) \<and>
     (if window_h d - (4 * kGap + 2 * side_' s) < footprint (side_' s) (h_' s)
      then fst (layout_y d s) = 2 * kGap \<and>
           footprint (side_' s) (h_' s') \<le> window_h d - 2 * kGap \<and>
           (\<forall>c. footprint (side_' s) c \<le> window_h d - 2 * kGap \<longrightarrow> c \<le> h_' s')
      else h_' s' = h_' s \<and>
           footprint (side_' s) (h_' s') \<le> window_h d - (4 * kGap + 2 * side_' s) \<and>
           0 < fst (layout_y d s) \<and>
           (window_h d - footprint (side_' s) (h_' s') - fst (layout_y d s))
             - fst (layout_y d s) \<in> {0, 1})"
proof -
  note counts = init_cells_counts [OF assms(6)]
  note lx = layout_x_footprint [OF assms(1) assms(2) assms(4)]
  note ly = layout_y_footprint [OF assms(1) assms(3) assms(5)]
  have x: "if window_w d - (4 * kGap + 2 * side_' s) < footprint (side_' s) (w_' s)
      then fst (layout_x d s) = 2 * kGap \<and>
           footprint (side_' s) (w_' s') \<le> window_w d - 2 * kGap \<and>
           (\<forall>c. footprint (side_' s) c \<le> window_w d - 2 * kGap \<longrightarrow> c \<le> w_' s')
      else w_' s' = w_' s \<and>
           footprint (side_' s) (w_' s') \<le> window_w d - (4 * kGap + 2 * side_' s) \<and>
           0 < fst (layout_x d s) \<and>
           (window_w d - footprint (side_' s) (w_' s') - fst (layout_x d s))
             - fst (layout_x d s) \<in> {0, 1}"
  proof (cases "window_w d - (4 * kGap + 2 * side_' s) < footprint (side_' s) (w_' s)")
    case True
    then show ?thesis
      using axis_resized [OF assms(1) assms(2)] counts
      by (simp add: lx)
  next
    case False
    then have fit: "footprint (side_' s) (w_' s) \<le> window_w d - (4 * kGap + 2 * side_' s)"
      by simp
    show ?thesis
      using False fit axis_kept [OF assms(1), of "w_' s"] axis_centred [OF assms(1) fit] counts
      by (simp add: lx)
  qed
  have y: "if window_h d - (4 * kGap + 2 * side_' s) < footprint (side_' s) (h_' s)
      then fst (layout_y d s) = 2 * kGap \<and>
           footprint (side_' s) (h_' s') \<le> window_h d - 2 * kGap \<and>
           (\<forall>c. footprint (side_' s) c \<le> window_h d - 2 * kGap \<longrightarrow> c \<le> h_' s')
      else h_' s' = h_' s \<and>
           footprint (side_' s) (h_' s') \<le> window_h d - (4 * kGap + 2 * side_' s) \<and>
           0 < fst (layout_y d s) \<and>
           (window_h d - footprint (side_' s) (h_' s') - fst (layout_y d s))
             - fst (layout_y d s) \<in> {0, 1}"
  proof (cases "window_h d - (4 * kGap + 2 * side_' s) < footprint (side_' s) (h_' s)")
    case True
    then show ?thesis
      using axis_resized [OF assms(1) assms(3)] counts
      by (simp add: ly)
  next
    case False
    then have fit: "footprint (side_' s) (h_' s) \<le> window_h d - (4 * kGap + 2 * side_' s)"
      by simp
    show ?thesis
      using False fit axis_kept [OF assms(1), of "h_' s"] axis_centred [OF assms(1) fit] counts
      by (simp add: ly)
  qed
  from x y show ?thesis by (rule conjI)
qed

lemma narrow_layout:
  "\<not> isl (init_cells_' display_40 (CellGrand_members zero_shapes 8 4 1)) \<and>
   side_' (CellGrand_members zero_shapes 8 4 1) = 8 \<and>
   w_' (CellGrand_members zero_shapes 8 4 1) = 4 \<and>
   h_' (CellGrand_members zero_shapes 8 4 1) = 1 \<and>
   window_w display_40 = 40 \<and> window_h display_40 = 100 \<and>
   footprint 8 4 = 38 \<and> footprint 8 3 = 28 \<and> footprint 8 1 = 8 \<and>
   pixel_range 8 4 40 \<and> pixel_range 8 1 100"
  by code_simp

theorem layout_fit_witness:
  "3 \<le> side_' (CellGrand_members zero_shapes 8 4 1) \<and>
   2 \<le> window_w display_40 \<and> 2 \<le> window_h display_40 \<and>
   pixel_range (side_' (CellGrand_members zero_shapes 8 4 1))
     (w_' (CellGrand_members zero_shapes 8 4 1)) (window_w display_40) \<and>
   pixel_range (side_' (CellGrand_members zero_shapes 8 4 1))
     (h_' (CellGrand_members zero_shapes 8 4 1)) (window_h display_40) \<and>
   \<not> isl (init_cells_' display_40 (CellGrand_members zero_shapes 8 4 1)) \<and>
   footprint 8 (w_' (projr (init_cells_' display_40 (CellGrand_members zero_shapes 8 4 1))))
     \<le> 40 - 4 \<and>
   4 \<le> w_' (projr (init_cells_' display_40 (CellGrand_members zero_shapes 8 4 1))) + 1 \<and>
   h_' (projr (init_cells_' display_40 (CellGrand_members zero_shapes 8 4 1))) = 1 \<and>
   fst (layout_y display_40 (CellGrand_members zero_shapes 8 4 1)) = 46"
proof -
  let ?s = "CellGrand_members zero_shapes 8 4 1"
  let ?s' = "projr (init_cells_' display_40 ?s)"
  have a: "3 \<le> side_' ?s" "2 \<le> window_w display_40" "2 \<le> window_h display_40"
    using narrow_layout by simp_all
  have px: "pixel_range (side_' ?s) (w_' ?s) (window_w display_40)"
    "pixel_range (side_' ?s) (h_' ?s) (window_h display_40)"
    using narrow_layout by simp_all
  have b: "init_cells_' display_40 ?s = Inr ?s'"
    using narrow_layout by simp
  have c: "fst (layout_y display_40 ?s) = 46"
    by code_simp
  have cond: "window_w display_40 - (4 * kGap + 2 * side_' ?s) < footprint (side_' ?s) (w_' ?s)"
    "\<not> window_h display_40 - (4 * kGap + 2 * side_' ?s) < footprint (side_' ?s) (h_' ?s)"
    using narrow_layout by (simp_all add: kGap_def)
  have fit: "footprint (side_' ?s) (w_' ?s') \<le> window_w display_40 - 2 * kGap"
    "\<forall>c. footprint (side_' ?s) c \<le> window_w display_40 - 2 * kGap \<longrightarrow> c \<le> w_' ?s'"
    "h_' ?s' = h_' ?s"
    using layout_fit [OF a px b] cond by simp_all
  from fit(2) have "footprint (side_' ?s) 3 \<le> window_w display_40 - 2 * kGap \<longrightarrow> 3 \<le> w_' ?s'"
    by (rule spec)
  then have "3 \<le> w_' ?s'"
    using narrow_layout by (simp add: kGap_def)
  with fit(1,3) show ?thesis
    using a px b c narrow_layout by (simp add: kGap_def)
qed

subsection \<open>Toggles and the counter \<open>ready_\<close>\<close>

lemma count_active_nonneg: "0 \<le> count_active n cs"
  by (induction n) simp_all

lemma count_active_beyond: "n \<le> k \<Longrightarrow> count_active n (cs(k := c)) = count_active n cs"
  by (induction n) simp_all

lemma count_active_update:
  "k < n \<Longrightarrow> count_active n (cs(k := c)) =
     count_active n cs - (if is_active_' (cs k) then 1 else 0) + (if is_active_' c then 1 else 0)"
proof (induction n)
  case 0
  then show ?case by simp
next
  case (Suc n)
  show ?case
  proof (cases "k = n")
    case True
    have "count_active n (cs(n := c)) = count_active n cs"
      by (rule count_active_beyond) simp
    then have "count_active (Suc n) (cs(n := c)) =
        count_active (Suc n) cs - (if is_active_' (cs n) then 1 else 0)
          + (if is_active_' c then 1 else 0)"
      by (simp only: count_active.simps fun_upd_same)
    with True show ?thesis by (simp only:)
  next
    case False
    with Suc.prems have "k < n" by simp
    with Suc.IH False show ?thesis by simp
  qed
qed

lemma count_active_none: "(\<And>k. \<not> is_active_' (cs k)) \<Longrightarrow> count_active n cs = 0"
  by (induction n) simp_all

lemma handle_cell_account:
  assumes "i < n"
  shows "ready_' (handle_cell e mx my i s) - count_active n (cells_' (handle_cell e mx my i s)) =
         ready_' s - count_active n (cells_' s)"
  using assms
  by (simp add: handle_cell_def Let_def count_active_update set_wait_state_def
      set_active_state_def get_wait_state_def get_active_state_def)

lemma fold_handle_cell_account:
  "(\<And>i. i \<in> set xs \<Longrightarrow> i < n) \<Longrightarrow>
   ready_' (fold (handle_cell e mx my) xs s) - count_active n (cells_' (fold (handle_cell e mx my) xs s)) =
   ready_' s - count_active n (cells_' s)"
proof (induction xs arbitrary: s)
  case Nil
  then show ?case by simp
next
  case (Cons x xs)
  have "x < n" using Cons.prems by simp
  then show ?case
    using Cons.IH [of "handle_cell e mx my x s"] Cons.prems handle_cell_account [of x n e mx my s]
    by simp
qed

lemma handle_key_frame:
  "cells_' (handle_key e s) = cells_' s \<and> ready_' (handle_key e s) = ready_' s \<and>
   cell_count_' (handle_key e s) = cell_count_' s \<and> side_' (handle_key e s) = side_' s"
  by (simp add: handle_key_def split: SDL_Event.splits)

lemma handle_stop_frame:
  "cells_' (handle_stop s) = cells_' s \<and> cell_count_' (handle_stop s) = cell_count_' s \<and>
   side_' (handle_stop s) = side_' s"
  by (simp add: handle_stop_def)

lemma handle_stop_ready: "0 \<le> ready_' s \<Longrightarrow> ready_' (handle_stop s) = ready_' s"
  by (simp add: handle_stop_def)

lemma handle_input_cell_count:
  "cell_count_' (handle_input e mx my s) = cell_count_' s"
  by (simp add: handle_input_def handle_stop_frame handle_key_frame fold_handle_cell_frame)

lemma handle_input_cells:
  "cells_' (handle_input e mx my s) =
   cells_' (fold (handle_cell e mx my) [0..<nat (cell_count_' s)] s)"
  by (simp add: handle_input_def handle_stop_frame handle_key_frame)

lemma handle_input_account:
  assumes "ready_' s = count_active (nat (cell_count_' s)) (cells_' s)"
  shows "ready_' (handle_input e mx my s) =
         count_active (nat (cell_count_' (handle_input e mx my s))) (cells_' (handle_input e mx my s))"
proof -
  let ?n = "nat (cell_count_' s)"
  let ?s1 = "fold (handle_cell e mx my) [0..<?n] s"
  have "ready_' ?s1 - count_active ?n (cells_' ?s1) = ready_' s - count_active ?n (cells_' s)"
    by (rule fold_handle_cell_account) simp
  with assms have s1: "ready_' ?s1 = count_active ?n (cells_' ?s1)"
    by simp
  have "0 \<le> ready_' (handle_key e ?s1)"
    using s1 count_active_nonneg [of ?n "cells_' ?s1"] by (simp add: handle_key_frame)
  then have "ready_' (handle_stop (handle_key e ?s1)) = ready_' (handle_key e ?s1)"
    by (rule handle_stop_ready)
  then have "ready_' (handle_input e mx my s) = ready_' ?s1"
    by (simp add: handle_input_def handle_key_frame)
  moreover have "cells_' (handle_input e mx my s) = cells_' ?s1"
    by (rule handle_input_cells)
  ultimately show ?thesis
    using s1 by (simp add: handle_input_cell_count)
qed

lemma handle_events_account:
  "ready_' s = count_active (nat (cell_count_' s)) (cells_' s) \<Longrightarrow>
   ready_' (handle_events evs s) =
     count_active (nat (cell_count_' (handle_events evs s))) (cells_' (handle_events evs s))"
proof (induction evs arbitrary: s)
  case Nil
  then show ?case by (simp add: handle_events_def)
next
  case (Cons ev evs)
  have "handle_events (ev # evs) s =
        handle_events evs (handle_input (fst ev) (fst (snd ev)) (snd (snd ev)) s)"
    by (simp add: handle_events_def)
  then show ?case
    using Cons.IH [OF handle_input_account [OF Cons.prems]] by simp
qed

text \<open>The first layout leaves no cell active.\<close>

lemma init_write_inactive:
  "(\<And>k. \<not> is_active_' (cs k)) \<Longrightarrow> \<not> is_active_' (init_write side w sx sy i j cs k)"
  by (simp add: init_write_def set_active_change_def set_active_state_def)

lemma fold_init_write_inactive:
  "(\<And>k. \<not> is_active_' (cs k)) \<Longrightarrow> \<not> is_active_' (fold (init_write side w sx sy i) js cs k)"
proof (induction js arbitrary: cs k)
  case Nil
  then show ?case by simp
next
  case (Cons j js)
  show ?case
    using Cons.IH [of "init_write side w sx sy i j cs" k] init_write_inactive [of cs side w sx sy i j] Cons.prems
    by simp
qed

lemma fold_fold_init_write_inactive:
  "(\<And>k. \<not> is_active_' (cs k)) \<Longrightarrow>
   \<not> is_active_' (fold (\<lambda>i. fold (init_write side w sx sy i) js) is cs k)"
proof (induction "is" arbitrary: cs k)
  case Nil
  then show ?case by simp
next
  case (Cons i "is")
  show ?case
    using Cons.IH [of "fold (init_write side w sx sy i) js cs" k]
      fold_init_write_inactive [of cs side w sx sy i js] Cons.prems
    by simp
qed

lemma CellGrand_new_account:
  assumes "CellGrand_new junk d side w h = Inr s0"
  shows "ready_' s0 = count_active (nat (cell_count_' s0)) (cells_' s0) \<and> \<not> start_' s0"
proof -
  have init: "init_cells_' d (CellGrand_members junk side w h) = Inr s0"
    using assms by (simp add: CellGrand_new_def split: if_splits)
  have "\<not> is_active_' (cells_' s0 k)" for k
    using init
    by (auto simp: init_cells_outcome CellGrand_members_def Cell_default_def
        fold_fold_init_write_inactive split: if_splits)
  then have "count_active n (cells_' s0) = 0" for n
    by (rule count_active_none)
  moreover have "ready_' s0 = 0" "\<not> start_' s0"
    using init_cells_frame [OF init] by (simp_all add: CellGrand_members_def)
  ultimately show ?thesis by simp
qed


text \<open>What one call does to the active flag of each cell.\<close>

lemma handle_cell_other:
  "k \<noteq> i \<Longrightarrow> cells_' (handle_cell e mx my i s) k = cells_' s k"
  by (simp add: handle_cell_def Let_def)

lemma handle_cell_local:
  "side_' a = side_' b \<Longrightarrow> start_' a = start_' b \<Longrightarrow> cells_' a i = cells_' b i \<Longrightarrow>
   cells_' (handle_cell e mx my i a) i = cells_' (handle_cell e mx my i b) i"
  by (simp add: handle_cell_def Let_def)

lemma fold_handle_cell_cells:
  "cells_' (fold (handle_cell e mx my) [0..<n] s) k =
     (if k < n then cells_' (handle_cell e mx my k s) k else cells_' s k)"
proof (induction n arbitrary: k)
  case 0
  then show ?case by simp
next
  case (Suc n)
  let ?s1 = "fold (handle_cell e mx my) [0..<n] s"
  have step: "fold (handle_cell e mx my) [0..<Suc n] s = handle_cell e mx my n ?s1"
    by simp
  show ?case
  proof (cases "k = n")
    case True
    have "cells_' ?s1 n = cells_' s n"
      using Suc.IH [of n] by simp
    then have "cells_' (handle_cell e mx my n ?s1) n = cells_' (handle_cell e mx my n s) n"
      by (intro handle_cell_local) (simp_all add: fold_handle_cell_frame)
    with True step show ?thesis by simp
  next
    case False
    then have "cells_' (handle_cell e mx my n ?s1) k = cells_' ?s1 k"
      by (rule handle_cell_other)
    with False step Suc.IH [of k] show ?thesis by auto
  qed
qed

lemma handle_cell_active:
  "is_active_' (cells_' (handle_cell e mx my i s) i) =
     (if \<not> start_' s \<and> hovers (side_' s) mx my (cells_' s i) \<and>
         e = SDL_EVENT_MOUSE_BUTTON_DOWN SDL_BUTTON_LEFT
      then \<not> is_active_' (cells_' s i) else is_active_' (cells_' s i))"
  by (simp add: handle_cell_def Let_def set_wait_state_def set_active_state_def
      get_wait_state_def get_active_state_def)

lemma handle_cell_ready:
  "ready_' (handle_cell e mx my i s) =
     (if \<not> start_' s \<and> hovers (side_' s) mx my (cells_' s i) \<and>
         e = SDL_EVENT_MOUSE_BUTTON_DOWN SDL_BUTTON_LEFT
      then (if is_active_' (cells_' s i) then ready_' s - 1 else ready_' s + 1)
      else ready_' s)"
  by (simp add: handle_cell_def Let_def set_wait_state_def set_active_state_def
      get_wait_state_def get_active_state_def)

lemma handle_input_active:
  "is_active_' (cells_' (handle_input e mx my s) k) =
     (if k < nat (cell_count_' s) \<and> \<not> start_' s \<and> hovers (side_' s) mx my (cells_' s k) \<and>
         e = SDL_EVENT_MOUSE_BUTTON_DOWN SDL_BUTTON_LEFT
      then \<not> is_active_' (cells_' s k) else is_active_' (cells_' s k))"
  by (simp add: handle_input_cells fold_handle_cell_cells handle_cell_active)

lemma fold_handle_cell_no_click:
  "e \<noteq> SDL_EVENT_MOUSE_BUTTON_DOWN SDL_BUTTON_LEFT \<Longrightarrow>
   ready_' (fold (handle_cell e mx my) xs s) = ready_' s"
  by (induction xs arbitrary: s) (simp_all add: handle_cell_ready)

lemma return_without_cells:
  assumes "ready_' s = 0"
  shows "start_' (handle_input (SDL_EVENT_KEY_DOWN SDL_SCANCODE_RETURN) mx my s) = False \<and>
         ready_' (handle_input (SDL_EVENT_KEY_DOWN SDL_SCANCODE_RETURN) mx my s) = 0"
  using assms
  by (simp add: handle_input_def handle_stop_def handle_key_def fold_handle_cell_no_click
      fold_handle_cell_frame)

text \<open>
  C7. From construction on, after any run of input events \<open>ready_\<close> is the number of
  active cells among the \<open>cell_count_\<close> cells. In editing mode a left button press flips
  the active flag of exactly the cells under the pointer, and the visit of such a cell
  adds one to \<open>ready_\<close> when it turns the cell on and takes one off when it turns it off;
  the counter equals the number of active cells again after the call. In running mode
  a button press changes no active flag. With \<open>ready_ = 0\<close> the return key leaves the
  engine in editing mode with \<open>ready_ = 0\<close> and every active flag as it was (the hover flags
  are recomputed by every call).
\<close>

theorem toggle_ready_accounting:
  "(CellGrand_new junk d side w h = Inr s0 \<longrightarrow>
      ready_' (handle_events evs s0) =
        count_active (nat (cell_count_' (handle_events evs s0))) (cells_' (handle_events evs s0))) \<and>
   (\<not> start_' s \<and> i < nat (cell_count_' s) \<longrightarrow>
      is_active_' (cells_' (handle_input (SDL_EVENT_MOUSE_BUTTON_DOWN SDL_BUTTON_LEFT) mx my s) i) =
        (if hovers (side_' s) mx my (cells_' s i)
         then \<not> is_active_' (cells_' s i) else is_active_' (cells_' s i))) \<and>
   (\<not> start_' s \<and> hovers (side_' s) mx my (cells_' s i) \<longrightarrow>
      ready_' (handle_cell (SDL_EVENT_MOUSE_BUTTON_DOWN SDL_BUTTON_LEFT) mx my i s) =
        (if is_active_' (cells_' s i) then ready_' s - 1 else ready_' s + 1)) \<and>
   (ready_' s = count_active (nat (cell_count_' s)) (cells_' s) \<longrightarrow>
      ready_' (handle_input e mx my s) =
        count_active (nat (cell_count_' (handle_input e mx my s))) (cells_' (handle_input e mx my s))) \<and>
   (start_' t \<longrightarrow>
      is_active_' (cells_' (handle_input (SDL_EVENT_MOUSE_BUTTON_DOWN b) mx my t) k) =
        is_active_' (cells_' t k)) \<and>
   (ready_' u = 0 \<longrightarrow>
      start_' (handle_input (SDL_EVENT_KEY_DOWN SDL_SCANCODE_RETURN) mx my u) = False \<and>
      ready_' (handle_input (SDL_EVENT_KEY_DOWN SDL_SCANCODE_RETURN) mx my u) = 0 \<and>
      is_active_' (cells_' (handle_input (SDL_EVENT_KEY_DOWN SDL_SCANCODE_RETURN) mx my u) k) =
        is_active_' (cells_' u k))"
proof (intro conjI impI)
  assume "CellGrand_new junk d side w h = Inr s0"
  then have "ready_' s0 = count_active (nat (cell_count_' s0)) (cells_' s0)"
    using CellGrand_new_account by blast
  then show "ready_' (handle_events evs s0) =
      count_active (nat (cell_count_' (handle_events evs s0))) (cells_' (handle_events evs s0))"
    by (rule handle_events_account)
next
  assume "\<not> start_' s \<and> i < nat (cell_count_' s)"
  then show "is_active_' (cells_' (handle_input (SDL_EVENT_MOUSE_BUTTON_DOWN SDL_BUTTON_LEFT) mx my s) i) =
        (if hovers (side_' s) mx my (cells_' s i)
         then \<not> is_active_' (cells_' s i) else is_active_' (cells_' s i))"
    by (simp add: handle_input_active)
next
  assume "\<not> start_' s \<and> hovers (side_' s) mx my (cells_' s i)"
  then show "ready_' (handle_cell (SDL_EVENT_MOUSE_BUTTON_DOWN SDL_BUTTON_LEFT) mx my i s) =
        (if is_active_' (cells_' s i) then ready_' s - 1 else ready_' s + 1)"
    by (simp add: handle_cell_ready)
next
  assume "ready_' s = count_active (nat (cell_count_' s)) (cells_' s)"
  then show "ready_' (handle_input e mx my s) =
        count_active (nat (cell_count_' (handle_input e mx my s))) (cells_' (handle_input e mx my s))"
    by (rule handle_input_account)
next
  assume "start_' t"
  then show "is_active_' (cells_' (handle_input (SDL_EVENT_MOUSE_BUTTON_DOWN b) mx my t) k) =
        is_active_' (cells_' t k)"
    by (simp add: handle_input_active)
next
  assume "ready_' u = 0"
  then show "start_' (handle_input (SDL_EVENT_KEY_DOWN SDL_SCANCODE_RETURN) mx my u) = False"
    "ready_' (handle_input (SDL_EVENT_KEY_DOWN SDL_SCANCODE_RETURN) mx my u) = 0"
    using return_without_cells by simp_all
next
  show "is_active_' (cells_' (handle_input (SDL_EVENT_KEY_DOWN SDL_SCANCODE_RETURN) mx my u) k) =
        is_active_' (cells_' u k)"
    by (simp add: handle_input_active)
qed

lemma grid_3x3_facts:
  "\<not> isl (CellGrand_new zero_shapes display_100 8 3 3) \<and>
   \<not> start_' grid_3x3 \<and> ready_' grid_3x3 = 0 \<and> cell_count_' grid_3x3 = 9 \<and>
   side_' grid_3x3 = 8 \<and> \<not> is_active_' (cells_' grid_3x3 4) \<and>
   hovers 8 47 47 (cells_' grid_3x3 4) \<and>
   start_' lone_centre \<and> is_active_' (cells_' lone_centre 4) \<and>
   cell_count_' (handle_events
      [(SDL_EVENT_MOUSE_BUTTON_DOWN SDL_BUTTON_LEFT, 47, 47),
       (SDL_EVENT_MOUSE_BUTTON_DOWN SDL_BUTTON_LEFT, 37, 37),
       (SDL_EVENT_MOUSE_BUTTON_DOWN SDL_BUTTON_LEFT, 47, 47)] grid_3x3) = 9 \<and>
   count_active 9 (cells_' (handle_events
      [(SDL_EVENT_MOUSE_BUTTON_DOWN SDL_BUTTON_LEFT, 47, 47),
       (SDL_EVENT_MOUSE_BUTTON_DOWN SDL_BUTTON_LEFT, 37, 37),
       (SDL_EVENT_MOUSE_BUTTON_DOWN SDL_BUTTON_LEFT, 47, 47)] grid_3x3)) = 1"
  by code_simp

theorem toggle_ready_accounting_witness:
  "\<not> isl (CellGrand_new zero_shapes display_100 8 3 3) \<and>
   ready_' (handle_events
      [(SDL_EVENT_MOUSE_BUTTON_DOWN SDL_BUTTON_LEFT, 47, 47),
       (SDL_EVENT_MOUSE_BUTTON_DOWN SDL_BUTTON_LEFT, 37, 37),
       (SDL_EVENT_MOUSE_BUTTON_DOWN SDL_BUTTON_LEFT, 47, 47)] grid_3x3) = 1 \<and>
   \<not> start_' grid_3x3 \<and> hovers (side_' grid_3x3) 47 47 (cells_' grid_3x3 4) \<and>
   is_active_' (cells_' (left_click 47 47 grid_3x3) 4) \<and>
   ready_' (handle_cell (SDL_EVENT_MOUSE_BUTTON_DOWN SDL_BUTTON_LEFT) 47 47 4 grid_3x3) = 1 \<and>
   ready_' (left_click 47 47 grid_3x3) =
     count_active 9 (cells_' (left_click 47 47 grid_3x3)) \<and>
   start_' lone_centre \<and> is_active_' (cells_' (left_click 47 47 lone_centre) 4) \<and>
   ready_' grid_3x3 = 0 \<and> start_' (press_return grid_3x3) = False \<and>
   ready_' (press_return grid_3x3) = 0"
proof -
  let ?click = "SDL_EVENT_MOUSE_BUTTON_DOWN SDL_BUTTON_LEFT"
  let ?evs = "[(?click, 47, 47), (?click, 37, 37), (?click, 47, 47)] :: (SDL_Event \<times> real \<times> real) list"
  note facts = grid_3x3_facts
  have new: "CellGrand_new zero_shapes display_100 8 3 3 = Inr grid_3x3"
    using facts by (simp add: grid_3x3_def)
  have acc: "ready_' grid_3x3 = count_active (nat (cell_count_' grid_3x3)) (cells_' grid_3x3)"
    using CellGrand_new_account [OF new] by simp
  have ed: "\<not> start_' grid_3x3 \<and> 4 < nat (cell_count_' grid_3x3)"
    "\<not> start_' grid_3x3 \<and> hovers (side_' grid_3x3) 47 47 (cells_' grid_3x3 4)"
    using facts by simp_all
  have run: "start_' lone_centre" and zero: "ready_' grid_3x3 = 0"
    using facts by simp_all
  note th = toggle_ready_accounting [of zero_shapes display_100 8 3 3 grid_3x3 ?evs
      grid_3x3 4 47 47 ?click lone_centre SDL_BUTTON_LEFT 4 grid_3x3]
  from th new have 1: "ready_' (handle_events ?evs grid_3x3) =
      count_active (nat (cell_count_' (handle_events ?evs grid_3x3))) (cells_' (handle_events ?evs grid_3x3))"
    by blast
  from th ed have 2: "is_active_' (cells_' (handle_input ?click 47 47 grid_3x3) 4) =
      (if hovers (side_' grid_3x3) 47 47 (cells_' grid_3x3 4)
       then \<not> is_active_' (cells_' grid_3x3 4) else is_active_' (cells_' grid_3x3 4))"
    and 3: "ready_' (handle_cell ?click 47 47 4 grid_3x3) =
      (if is_active_' (cells_' grid_3x3 4) then ready_' grid_3x3 - 1 else ready_' grid_3x3 + 1)"
    by blast+
  from th acc have 4: "ready_' (handle_input ?click 47 47 grid_3x3) =
      count_active (nat (cell_count_' (handle_input ?click 47 47 grid_3x3)))
        (cells_' (handle_input ?click 47 47 grid_3x3))"
    by blast
  from th run have 5: "is_active_' (cells_' (handle_input ?click 47 47 lone_centre) 4) =
      is_active_' (cells_' lone_centre 4)"
    by blast
  have 7: "start_' (press_return grid_3x3) = False \<and> ready_' (press_return grid_3x3) = 0"
    using toggle_ready_accounting [of _ _ _ _ _ _ _ _ _ "- 1" "- 1" _ _ _ _ grid_3x3] zero
    unfolding press_return_def by blast
  show ?thesis
    using facts 1 2 3 4 5 7 by (simp add: left_click_def handle_input_cell_count)
qed

subsection \<open>Jitter\<close>

text \<open>
  C9. \<open>ai_\<close> sets the shake of the element \<open>i * w_ + j\<close> for \<open>i < w_\<close> and \<open>j < h_\<close>. With
  3 columns and 2 rows these are the elements 0, 1, 3, 4, 6 and 7: the elements 2 and 5
  are among the \<open>cell_count_ = 6\<close> cells that \<open>handle_input\<close> toggles and \<open>draw_cells_\<close>
  draws, and no frame writes their shake. The cell that got the shake \<open>(-1, 0)\<close> under
  the 3 by 3 layout keeps it under the new one: after a frame in running mode, and,
  toggled off, after a frame in editing mode.
\<close>

theorem jitter_left_on_unvisited_cell:
  "\<not> isl (play display_100 mt_count (left_click 37 57 grid_3x3)) \<and>
   \<not> isl (play display_30_rescaled mt_count shaken_edge) \<and>
   \<not> isl (play display_30 mt_count (press_return shrunk)) \<and>
   \<not> isl (play display_30 mt_count (left_click 37 57 shrunk)) \<and>
   shake_' (cells_' shaken_edge 2) = (- 1, 0) \<and>
   w_' shrunk = 3 \<and> h_' shrunk = 2 \<and> cell_count_' shrunk = 6 \<and>
   start_' shrunk_running \<and> cell_count_' shrunk_running = 6 \<and>
   is_active_' (cells_' shrunk_running 2) \<and>
   shake_' (cells_' shrunk_running 2) = (- 1, 0) \<and>
   \<not> start_' shrunk_editing \<and> cell_count_' shrunk_editing = 6 \<and>
   \<not> is_active_' (cells_' shrunk_editing 2) \<and>
   shake_' (cells_' shrunk_editing 2) = (- 1, 0)"
  by code_simp

subsection \<open>What the passes do to the elements they reach\<close>

text \<open>
  The commit pass consumes every flag below \<open>cell_count_\<close> and leaves the elements from
  \<open>cell_count_\<close> on as they are.
\<close>

lemma commit_cell_other: "k \<noteq> i \<Longrightarrow> commit_cell i cs k = cs k"
  by (simp add: commit_cell_def)

lemma commit_cell_self:
  "commit_cell i cs i =
     (if active_change (cs i)
      then (cs i)\<lparr>is_active_' := \<not> is_active_' (cs i), active_change := False\<rparr>
      else cs i)"
  by (simp add: commit_cell_def get_active_change_def set_active_change_def
      set_active_state_def get_active_state_def)

lemma fold_commit_cell:
  "fold commit_cell [0..<n] cs k =
     (if k < n \<and> active_change (cs k)
      then (cs k)\<lparr>is_active_' := \<not> is_active_' (cs k), active_change := False\<rparr>
      else cs k)"
proof (induction n arbitrary: k)
  case 0
  then show ?case by simp
next
  case (Suc n)
  have step: "fold commit_cell [0..<Suc n] cs = commit_cell n (fold commit_cell [0..<n] cs)"
    by simp
  show ?case
  proof (cases "k = n")
    case True
    have "fold commit_cell [0..<n] cs n = cs n"
      using Suc.IH [of n] by simp
    then have "commit_cell n (fold commit_cell [0..<n] cs) n =
        (if active_change (cs n)
         then (cs n)\<lparr>is_active_' := \<not> is_active_' (cs n), active_change := False\<rparr>
         else cs n)"
      by (simp add: commit_cell_self)
    with True step show ?thesis by simp
  next
    case False
    then have "commit_cell n (fold commit_cell [0..<n] cs) k = fold commit_cell [0..<n] cs k"
      by (rule commit_cell_other)
    with False step Suc.IH [of k] show ?thesis by auto
  qed
qed

lemma ai_commit_clears: "k < nat n \<Longrightarrow> \<not> active_change (ai_commit n cs k)"
  by (simp add: ai_commit_def fold_commit_cell)

lemma ai_commit_beyond: "nat n \<le> k \<Longrightarrow> ai_commit n cs k = cs k"
  by (simp add: ai_commit_def fold_commit_cell)

lemma ai_commit_shake: "shake_' (ai_commit n cs k) = shake_' (cs k)"
  by (simp add: ai_commit_def fold_commit_cell)

lemma ai_clears_below_cell_count:
  "k < nat (cell_count_' s) \<Longrightarrow> \<not> active_change (cells_' (snd (ai_' g s)) k)"
  by (simp add: ai_'_def Let_def ai_commit_clears)

text \<open>
  In running mode the evaluation pass sets the shake of every element \<open>i * w_ + j\<close> it
  visits to zero, and nothing else writes a shake.
\<close>

lemma ai_visit_shake_running:
  "shake_' (cells (ai_visit w h True i j L) k) =
     (if k = nat (i * w + j) then (0, 0) else shake_' (cells L k))"
  by (simp add: ai_visit_def ai_shake_def ai_motion_def Let_def set_shake_def
      set_active_change_def)

lemma fold_ai_visit_shake_running:
  "shake_' (cells (fold (ai_visit w h True i) js L) k) =
     (if k \<in> (\<lambda>j. nat (i * w + j)) ` set js then (0, 0) else shake_' (cells L k))"
proof (induction js arbitrary: L)
  case Nil
  then show ?case by simp
next
  case (Cons j js)
  show ?case
    using Cons.IH [of "ai_visit w h True i j L"]
    by (simp add: ai_visit_shake_running)
qed

lemma fold_fold_ai_visit_shake_running:
  "shake_' (cells (fold (\<lambda>i. fold (ai_visit w h True i) js) is L) k) =
     (if k \<in> (\<lambda>p. nat (fst p * w + snd p)) ` (set is \<times> set js) then (0, 0)
      else shake_' (cells L k))"
proof (induction "is" arbitrary: L)
  case Nil
  then show ?case by simp
next
  case (Cons i "is")
  have split: "(\<lambda>p. nat (fst p * w + snd p)) ` (set (i # is) \<times> set js) =
      (\<lambda>j. nat (i * w + j)) ` set js \<union> (\<lambda>p. nat (fst p * w + snd p)) ` (set is \<times> set js)"
    by (auto simp: image_iff)
  show ?case
    using Cons.IH [of "fold (ai_visit w h True i) js L"]
    unfolding split by (simp add: fold_ai_visit_shake_running)
qed

lemma running_frame_clears_visited_jitter:
  assumes "start_' s" and "0 \<le> i" and "i < w_' s" and "0 \<le> j" and "j < h_' s"
  shows "shake_' (cells_' (snd (ai_' g s)) (nat (i * w_' s + j))) = (0, 0)"
proof -
  have "i \<in> set (map int [0..<nat (w_' s)])" "j \<in> set (map int [0..<nat (h_' s)])"
    using assms by (auto simp: image_iff intro: bexI [of _ "nat i"] bexI [of _ "nat j"])
  then have "nat (i * w_' s + j) \<in> (\<lambda>p. nat (fst p * w_' s + snd p)) `
      (set (map int [0..<nat (w_' s)]) \<times> set (map int [0..<nat (h_' s)]))"
    by (intro image_eqI [of _ _ "(i, j)"]) simp_all
  then show ?thesis
    using assms(1)
    by (simp add: ai_'_def Let_def ai_commit_shake ai_evaluate_def
        fold_fold_ai_visit_shake_running del: set_map set_upt)
qed


text \<open>
  The elements that the evaluation pass visits, and the flags it can set: only those of
  visited elements, and none in editing mode.
\<close>

lemma ai_visit_other:
  "k \<noteq> nat (i * w + j) \<Longrightarrow> cells (ai_visit w h start i j L) k = cells L k"
  by (simp add: ai_visit_def ai_shake_def ai_motion_def Let_def)

lemma ai_visit_active:
  "is_active_' (cells (ai_visit w h start i j L) k) = is_active_' (cells L k)"
  by (simp add: ai_visit_def ai_shake_def ai_motion_def Let_def set_shake_def
      set_active_change_def)

lemma ai_visit_editing_change:
  "active_change (cells (ai_visit w h False i j L) k) = active_change (cells L k)"
  by (simp add: ai_visit_def ai_shake_def Let_def set_shake_def)

lemma Random_get_range: "fst (Random_get (- 1) 1 g) \<in> {- 1, 0, 1}"
proof -
  have "0 \<le> int (g 0) mod 3" "int (g 0) mod 3 < 3"
    by simp_all
  then have "int (g 0) mod 3 = 0 \<or> int (g 0) mod 3 = 1 \<or> int (g 0) mod 3 = 2"
    by linarith
  then show ?thesis
    by (auto simp: Random_get_def)
qed

lemma ai_visit_editing_self:
  "jitter_contained (cells (ai_visit w h False i j L) (nat (i * w + j)))"
  using Random_get_range [of "mt L"] Random_get_range [of "snd (Random_get (- 1) 1 (mt L))"]
  by (simp add: jitter_contained_def ai_visit_def ai_shake_def Let_def set_shake_def
      get_active_state_def)

lemma fold_ai_visit_editing:
  "if k \<in> (\<lambda>j. nat (i * w + j)) ` set js
   then jitter_contained (cells (fold (ai_visit w h False i) js L) k)
   else cells (fold (ai_visit w h False i) js L) k = cells L k"
proof (induction js arbitrary: L)
  case Nil
  then show ?case by simp
next
  case (Cons j js)
  let ?L = "ai_visit w h False i j L"
  show ?case
  proof (cases "k \<in> (\<lambda>j. nat (i * w + j)) ` set js")
    case True
    with Cons.IH [of ?L] show ?thesis by simp
  next
    case False
    with Cons.IH [of ?L] have same: "cells (fold (ai_visit w h False i) js ?L) k = cells ?L k"
      by simp
    show ?thesis
    proof (cases "k = nat (i * w + j)")
      case True
      with same ai_visit_editing_self [of w h i j L] show ?thesis by simp
    next
      case ne: False
      with same False ai_visit_other [of k i w j h False L] show ?thesis by simp
    qed
  qed
qed

lemma fold_fold_ai_visit_editing:
  "if k \<in> (\<lambda>p. nat (fst p * w + snd p)) ` (set is \<times> set js)
   then jitter_contained (cells (fold (\<lambda>i. fold (ai_visit w h False i) js) is L) k)
   else cells (fold (\<lambda>i. fold (ai_visit w h False i) js) is L) k = cells L k"
proof (induction "is" arbitrary: L)
  case Nil
  then show ?case by simp
next
  case (Cons i "is")
  let ?L = "fold (ai_visit w h False i) js L"
  have split: "(\<lambda>p. nat (fst p * w + snd p)) ` (set (i # is) \<times> set js) =
      (\<lambda>j. nat (i * w + j)) ` set js \<union> (\<lambda>p. nat (fst p * w + snd p)) ` (set is \<times> set js)"
    by (auto simp: image_iff)
  show ?case
  proof (cases "k \<in> (\<lambda>p. nat (fst p * w + snd p)) ` (set is \<times> set js)")
    case True
    with Cons.IH [of ?L] show ?thesis unfolding split by simp
  next
    case False
    with Cons.IH [of ?L] have same:
      "cells (fold (\<lambda>i. fold (ai_visit w h False i) js) is ?L) k = cells ?L k"
      by simp
    show ?thesis
      using same False fold_ai_visit_editing [of k i w js h L]
      unfolding split by (simp split: if_splits)
  qed
qed

lemma fold_ai_visit_editing_change:
  "active_change (cells (fold (ai_visit w h False i) js L) k) = active_change (cells L k)"
  by (induction js arbitrary: L) (simp_all add: ai_visit_editing_change)

lemma fold_fold_ai_visit_editing_change:
  "active_change (cells (fold (\<lambda>i. fold (ai_visit w h False i) js) is L) k) =
   active_change (cells L k)"
  by (induction "is" arbitrary: L) (simp_all add: fold_ai_visit_editing_change)

lemma visited_member:
  assumes "0 \<le> i" and "i < w" and "0 \<le> j" and "j < h"
  shows "nat (i * w' + j) \<in> (\<lambda>p. nat (fst p * w' + snd p)) `
           (set (map int [0..<nat w]) \<times> set (map int [0..<nat h]))"
proof -
  have "i \<in> set (map int [0..<nat w])" "j \<in> set (map int [0..<nat h])"
    using assms by (auto simp: image_iff intro: bexI [of _ "nat i"] bexI [of _ "nat j"])
  then show ?thesis
    by (intro image_eqI [of _ _ "(i, j)"]) simp_all
qed

lemma editing_frame_contains_visited_jitter:
  assumes "\<not> start_' s"
    and "\<forall>k<nat (cell_count_' s). \<not> active_change (cells_' s k)"
    and "0 \<le> i" and "i < w_' s" and "0 \<le> j" and "j < h_' s"
  shows "jitter_contained (cells_' (snd (ai_' g s)) (nat (i * w_' s + j)))"
proof -
  let ?k = "nat (i * w_' s + j)"
  let ?L = "ai_evaluate g s"
  have "jitter_contained (cells ?L ?k)"
    using fold_fold_ai_visit_editing [of ?k "w_' s" "map int [0..<nat (w_' s)]"
        "map int [0..<nat (h_' s)]" "h_' s"]
      visited_member [OF assms(3-6), of "w_' s"] assms(1)
    by (simp add: ai_evaluate_def del: set_map set_upt)
  moreover have "active_change (cells ?L ?k) = active_change (cells_' s ?k)"
    using assms(1) by (simp add: ai_evaluate_def fold_fold_ai_visit_editing_change)
  then have "ai_commit (cell_count_' s) (cells ?L) ?k = cells ?L ?k"
    using assms(2) by (simp add: ai_commit_def fold_commit_cell)
  ultimately show ?thesis
    by (simp add: ai_'_def Let_def)
qed

text \<open>In a square layout the elements visited are the cells below \<open>cell_count_\<close>.\<close>

lemma square_index:
  assumes "0 \<le> w" and "k < nat (w * w)"
  shows "0 \<le> int k div w \<and> int k div w < w \<and> 0 \<le> int k mod w \<and> int k mod w < w \<and>
         k = nat (int k div w * w + int k mod w)"
proof -
  have pos: "0 < w"
    using assms by (cases "w = 0") simp_all
  have "int k < w * w"
    using assms by linarith
  then have "int k div w < w"
    using mult_le_iff_le_div [OF pos, of w "int k"] by linarith
  moreover have "0 \<le> int k div w"
    using pos by (simp add: pos_imp_zdiv_nonneg_iff)
  ultimately show ?thesis
    using pos by simp
qed

lemma square_frame_contains_jitter:
  assumes "0 \<le> w_' s" and "h_' s = w_' s" and "cell_count_' s = w_' s * h_' s"
    and "\<forall>k<nat (cell_count_' s). \<not> active_change (cells_' s k)"
    and "k < nat (cell_count_' s)"
  shows "(start_' s \<longrightarrow> shake_' (cells_' (snd (ai_' g s)) k) = (0, 0)) \<and>
         (\<not> start_' s \<longrightarrow> jitter_contained (cells_' (snd (ai_' g s)) k))"
proof -
  let ?i = "int k div w_' s" and ?j = "int k mod w_' s"
  have idx: "0 \<le> ?i" "?i < w_' s" "0 \<le> ?j" "?j < h_' s" "k = nat (?i * w_' s + ?j)"
    using square_index [of "w_' s" k] assms(1,2,3,5) by simp_all
  show ?thesis
    using running_frame_clears_visited_jitter [OF _ idx(1-4), of g]
      editing_frame_contains_visited_jitter [OF _ assms(4) idx(1-4), of g] idx(5)
    by auto
qed


text \<open>
  The evaluation pass sets flags on visited elements only; in a square layout these lie
  below \<open>cell_count_\<close>, where the commit pass consumes them.
\<close>

lemma ai_visit_marks:
  "active_change (cells (ai_visit w h start i j L) k) \<Longrightarrow>
   active_change (cells L k) \<or> k = nat (i * w + j)"
  by (cases "k = nat (i * w + j)") (simp_all add: ai_visit_other)

lemma fold_ai_visit_marks:
  "active_change (cells (fold (ai_visit w h start i) js L) k) \<Longrightarrow>
   active_change (cells L k) \<or> k \<in> (\<lambda>j. nat (i * w + j)) ` set js"
proof (induction js arbitrary: L)
  case Nil
  then show ?case by simp
next
  case (Cons j js)
  from Cons.IH [of "ai_visit w h start i j L"] Cons.prems
  have "active_change (cells (ai_visit w h start i j L) k) \<or> k \<in> (\<lambda>j. nat (i * w + j)) ` set js"
    by simp
  then show ?case
    using ai_visit_marks [of w h start i j L k] by auto
qed

lemma fold_fold_ai_visit_marks:
  "active_change (cells (fold (\<lambda>i. fold (ai_visit w h start i) js) is L) k) \<Longrightarrow>
   active_change (cells L k) \<or> k \<in> (\<lambda>p. nat (fst p * w + snd p)) ` (set is \<times> set js)"
proof (induction "is" arbitrary: L)
  case Nil
  then show ?case by simp
next
  case (Cons i "is")
  from Cons.IH [of "fold (ai_visit w h start i) js L"] Cons.prems
  have "active_change (cells (fold (ai_visit w h start i) js L) k) \<or>
        k \<in> (\<lambda>p. nat (fst p * w + snd p)) ` (set is \<times> set js)"
    by simp
  then show ?case
    using fold_ai_visit_marks [of w h start i js L k] by (auto simp: image_iff)
qed

lemma square_visited_below:
  fixes w :: int
  assumes "0 \<le> i" and "i < w" and "0 \<le> j" and "j < w"
  shows "nat (i * w + j) < nat (w * w)"
proof -
  have "i * w \<le> (w - 1) * w"
    using assms by (intro mult_right_mono) simp_all
  then have "i * w + j < w * w"
    using assms by (simp add: algebra_simps)
  moreover have "0 \<le> i * w + j"
    using assms by simp
  ultimately show ?thesis by simp
qed

lemma visited_bounds:
  assumes "k \<in> (\<lambda>p. nat (fst p * w' + snd p)) `
             (set (map int [0..<nat w]) \<times> set (map int [0..<nat h]))"
  shows "\<exists>i j. 0 \<le> i \<and> i < w \<and> 0 \<le> j \<and> j < h \<and> k = nat (i * w' + j)"
proof -
  from assms obtain x y where "x < nat w" "y < nat h" "k = nat (int x * w' + int y)"
    by auto
  then have "0 \<le> int x \<and> int x < w \<and> 0 \<le> int y \<and> int y < h \<and> k = nat (int x * w' + int y)"
    by linarith
  then show ?thesis by blast
qed

lemma square_frame_consumes_flags:
  assumes "h_' s = w_' s" and "cell_count_' s = w_' s * h_' s"
    and "\<And>k. \<not> active_change (cells_' s k)"
  shows "\<not> active_change (cells_' (snd (ai_' g s)) k)"
proof (cases "k < nat (cell_count_' s)")
  case True
  then show ?thesis by (rule ai_clears_below_cell_count)
next
  case False
  then have "cells_' (snd (ai_' g s)) k = cells (ai_evaluate g s) k"
    by (simp add: ai_'_def Let_def ai_commit_beyond)
  moreover have "\<not> active_change (cells (ai_evaluate g s) k)"
  proof
    assume "active_change (cells (ai_evaluate g s) k)"
    then have "k \<in> (\<lambda>p. nat (fst p * w_' s + snd p)) `
        (set (map int [0..<nat (w_' s)]) \<times> set (map int [0..<nat (h_' s)]))"
      using fold_fold_ai_visit_marks [of "w_' s" "h_' s" "start_' s"
          "map int [0..<nat (h_' s)]" "map int [0..<nat (w_' s)]" _ k] assms(3)
      unfolding ai_evaluate_def by fastforce
    then obtain i j where "0 \<le> i" "i < w_' s" "0 \<le> j" "j < w_' s" "k = nat (i * w_' s + j)"
      using visited_bounds [of k "w_' s" "w_' s" "h_' s"] assms(1) by auto
    then have "k < nat (w_' s * w_' s)"
      using square_visited_below [of i "w_' s" j] by simp
    with False assms(1,2) show False by simp
  qed
  ultimately show ?thesis by simp
qed

text \<open>
  The layout pass resets the flags of the elements \<open>i * w_ + j\<close> it visits, all cells of a
  square layout, and leaves \<open>ready_\<close> and \<open>start_\<close> as they are (\<open>init_cells_frame\<close>).
\<close>

lemma init_write_self:
  "\<not> is_active_' (init_write side w sx sy i j cs (nat (cell_index w i j))) \<and>
   \<not> wait_for_select_' (init_write side w sx sy i j cs (nat (cell_index w i j))) \<and>
   \<not> active_change (init_write side w sx sy i j cs (nat (cell_index w i j)))"
  by (simp add: init_write_def set_active_change_def set_active_state_def set_wait_state_def
      set_shape_def)

lemma init_write_other:
  "k \<noteq> nat (cell_index w i j) \<Longrightarrow> init_write side w sx sy i j cs k = cs k"
  by (simp add: init_write_def)

lemma fold_init_write_flags:
  "if k \<in> (\<lambda>j. nat (cell_index w i j)) ` set js
   then \<not> is_active_' (fold (init_write side w sx sy i) js cs k) \<and>
        \<not> wait_for_select_' (fold (init_write side w sx sy i) js cs k) \<and>
        \<not> active_change (fold (init_write side w sx sy i) js cs k)
   else fold (init_write side w sx sy i) js cs k = cs k"
proof (induction js arbitrary: cs)
  case Nil
  then show ?case by simp
next
  case (Cons j js)
  let ?cs = "init_write side w sx sy i j cs"
  show ?case
  proof (cases "k \<in> (\<lambda>j. nat (cell_index w i j)) ` set js")
    case True
    with Cons.IH [of ?cs] show ?thesis by simp
  next
    case False
    with Cons.IH [of ?cs] have same: "fold (init_write side w sx sy i) js ?cs k = ?cs k"
      by simp
    show ?thesis
    proof (cases "k = nat (cell_index w i j)")
      case True
      with same init_write_self [of side w sx sy i j cs] show ?thesis by simp
    next
      case ne: False
      with same False init_write_other [of k w i j side sx sy cs] show ?thesis by simp
    qed
  qed
qed

lemma fold_fold_init_write_flags:
  "if k \<in> (\<lambda>p. nat (cell_index w (fst p) (snd p))) ` (set is \<times> set js)
   then \<not> is_active_' (fold (\<lambda>i. fold (init_write side w sx sy i) js) is cs k) \<and>
        \<not> wait_for_select_' (fold (\<lambda>i. fold (init_write side w sx sy i) js) is cs k) \<and>
        \<not> active_change (fold (\<lambda>i. fold (init_write side w sx sy i) js) is cs k)
   else fold (\<lambda>i. fold (init_write side w sx sy i) js) is cs k = cs k"
proof (induction "is" arbitrary: cs)
  case Nil
  then show ?case by simp
next
  case (Cons i "is")
  let ?cs = "fold (init_write side w sx sy i) js cs"
  have split: "(\<lambda>p. nat (cell_index w (fst p) (snd p))) ` (set (i # is) \<times> set js) =
      (\<lambda>j. nat (cell_index w i j)) ` set js \<union>
      (\<lambda>p. nat (cell_index w (fst p) (snd p))) ` (set is \<times> set js)"
    by (auto simp: image_iff)
  show ?case
  proof (cases "k \<in> (\<lambda>p. nat (cell_index w (fst p) (snd p))) ` (set is \<times> set js)")
    case True
    with Cons.IH [of ?cs] show ?thesis unfolding split by simp
  next
    case False
    with Cons.IH [of ?cs] have same:
      "fold (\<lambda>i. fold (init_write side w sx sy i) js) is ?cs k = ?cs k"
      by simp
    show ?thesis
      using same False fold_init_write_flags [of k w i js side sx sy cs]
      unfolding split by (simp split: if_splits)
  qed
qed

text \<open>
  A layout that wrote inside the array computed its indices without a wrap: a count
  above 16384 on either axis sends an early write of the loop outside.
\<close>

lemma wrap32_range: "- 2147483648 \<le> wrap32 x \<and> wrap32 x < 2147483648"
proof -
  have "0 \<le> (x + 2147483648) mod 4294967296" "(x + 2147483648) mod 4294967296 < 4294967296"
    by simp_all
  then show ?thesis
    unfolding wrap32_def by linarith
qed

lemma wrap32_idem: "wrap32 (wrap32 x) = wrap32 x"
  using wrap32_range [of x] by (simp add: wrap32_id)

lemma layout_wrapped:
  "wrap32 (fst (layout_x d s)) = fst (layout_x d s) \<and>
   wrap32 (snd (layout_x d s)) = snd (layout_x d s) \<and>
   wrap32 (fst (layout_y d s)) = fst (layout_y d s) \<and>
   wrap32 (snd (layout_y d s)) = snd (layout_y d s)"
  by (simp add: layout_x_def layout_y_def Let_def div32_def mul32_def wrap32_idem)

lemma grid_member:
  assumes "0 \<le> i" and "i < w" and "0 \<le> j" and "j < h"
  shows "(i, j) \<in> set (map int [0..<nat w]) \<times> set (map int [0..<nat h])"
  using assms by (auto simp: image_iff intro: bexI [of _ "nat i"] bexI [of _ "nat j"])

lemma layout_in_array_visit:
  assumes "layout_in_array w h" and "0 \<le> i" and "i < w" and "0 \<le> j" and "j < h"
  shows "in_array (cell_index w i j)"
proof -
  have "i \<in> set (map int [0..<nat w])" "j \<in> set (map int [0..<nat h])"
    using grid_member [OF assms(2-5)] by (simp_all add: mem_Times_iff)
  then show ?thesis
    using assms(1) unfolding layout_in_array_def list_all_iff by blast
qed

lemma layout_index_exact:
  assumes "layout_in_array w h" and "wrap32 w = w"
    and "0 \<le> i" and "i < w" and "0 \<le> j" and "j < h"
  shows "cell_index w i j = i * w + j \<and> 0 \<le> i * w + j \<and> i * w + j < 16384"
proof -
  have hb: "j < 16384"
  proof (rule ccontr)
    assume "\<not> j < 16384"
    then have "in_array (cell_index w 0 16384)"
      using assms by (intro layout_in_array_visit [of w h]) simp_all
    then show False
      by (simp add: cell_index_def add32_def mul32_def wrap32_def in_array_def MAX_CELL_COUNT_def)
  qed
  have wb: "i = 0 \<or> w < 16384"
  proof (cases "i = 0")
    case True
    then show ?thesis by simp
  next
    case False
    then have "in_array (cell_index w 1 0)"
      using assms by (intro layout_in_array_visit [of w h]) simp_all
    then show ?thesis
      using assms(2) by (simp add: cell_index_def add32_def mul32_def wrap32_idem in_array_def
          MAX_CELL_COUNT_def)
  qed
  have iw: "0 \<le> i * w" "i * w < 268435456"
  proof -
    show "0 \<le> i * w" using assms(3,4) by simp
    show "i * w < 268435456"
    proof (cases "i = 0")
      case True
      then show ?thesis by simp
    next
      case False
      with wb have "w \<le> 16383" "i \<le> 16383" using assms(4) by simp_all
      then have "i * w \<le> 16383 * 16383"
        using assms(3,4) by (intro mult_mono) simp_all
      then show ?thesis by simp
    qed
  qed
  have exact: "cell_index w i j = i * w + j"
    using iw hb assms(5) by (simp add: cell_index_def add32_def mul32_def wrap32_id)
  moreover have "in_array (cell_index w i j)"
    using assms by (intro layout_in_array_visit [of w h])
  ultimately show ?thesis
    using iw(1) assms(5) by (simp add: in_array_def MAX_CELL_COUNT_def)
qed

lemma init_cells_cells:
  assumes "init_cells_' d s = Inr s'"
  shows "layout_in_array (w_' s') (h_' s') \<and>
         cells_' s' = fold (\<lambda>i. fold (init_write (side_' s) (w_' s') (fst (layout_x d s))
                                (fst (layout_y d s)) i) (map int [0..<nat (h_' s')]))
                           (map int [0..<nat (w_' s')]) (cells_' s)"
  using assms by (auto simp: init_cells_outcome split: if_splits)

lemma layout_resets_visited:
  assumes "init_cells_' d s = Inr s'"
    and "0 \<le> i" and "i < w_' s'" and "0 \<le> j" and "j < h_' s'"
  shows "\<not> is_active_' (cells_' s' (nat (i * w_' s' + j))) \<and>
         \<not> wait_for_select_' (cells_' s' (nat (i * w_' s' + j))) \<and>
         \<not> active_change (cells_' s' (nat (i * w_' s' + j))) \<and>
         i * w_' s' + j < MAX_CELL_COUNT"
proof -
  let ?w = "w_' s'" and ?h = "h_' s'"
  note cells = init_cells_cells [OF assms(1)]
  have wr: "wrap32 ?w = ?w"
    using layout_wrapped [of d s] init_cells_counts [OF assms(1)] by simp
  have exact: "cell_index ?w i j = i * ?w + j" "i * ?w + j < 16384"
    using layout_index_exact [OF _ wr assms(2-5)] cells by simp_all
  have "nat (cell_index ?w i j) \<in> (\<lambda>p. nat (cell_index ?w (fst p) (snd p))) `
      (set (map int [0..<nat ?w]) \<times> set (map int [0..<nat ?h]))"
    using grid_member [OF assms(2-5)] by (intro image_eqI [of _ _ "(i, j)"]) simp_all
  then have "\<not> is_active_' (cells_' s' (nat (cell_index ?w i j))) \<and>
         \<not> wait_for_select_' (cells_' s' (nat (cell_index ?w i j))) \<and>
         \<not> active_change (cells_' s' (nat (cell_index ?w i j)))"
    using fold_fold_init_write_flags [of "nat (cell_index ?w i j)" ?w "map int [0..<nat ?w]"
        "map int [0..<nat ?h]" "side_' s" "fst (layout_x d s)" "fst (layout_y d s)" "cells_' s"]
      conjunct2 [OF cells]
    by (simp del: set_map set_upt)
  then show ?thesis
    using exact by (simp add: MAX_CELL_COUNT_def)
qed

lemma square_layout_resets_cells:
  assumes "init_cells_' d s = Inr s'" and "0 \<le> w_' s'" and "h_' s' = w_' s'"
    and "k < nat (w_' s' * h_' s')"
  shows "\<not> is_active_' (cells_' s' k) \<and> \<not> wait_for_select_' (cells_' s' k) \<and>
         \<not> active_change (cells_' s' k)"
proof -
  let ?i = "int k div w_' s'" and ?j = "int k mod w_' s'"
  have idx: "0 \<le> ?i" "?i < w_' s'" "0 \<le> ?j" "?j < h_' s'" "k = nat (?i * w_' s' + ?j)"
    using square_index [of "w_' s'" k] assms(2,3,4) by simp_all
  show ?thesis
    using layout_resets_visited [OF assms(1) idx(1-4)] idx(5) by simp
qed

text \<open>
  The anchor \<open>start_pos\<close> is where the layout puts the cell \<open>(0, 0)\<close>: element 0 is written
  by the first visit and by no later one.
\<close>

lemma layout_origin:
  assumes "init_cells_' d s = Inr s'" and "0 < w_' s'" and "0 < h_' s'"
  shows "shape_' (cells_' s' 0) =
           \<lparr>rect_x = fst (layout_x d s), rect_y = fst (layout_y d s),
            rect_w = side_' s, rect_h = side_' s\<rparr>"
proof -
  let ?w = "w_' s'" and ?h = "h_' s'"
  let ?f = "init_write (side_' s) ?w (fst (layout_x d s)) (fst (layout_y d s))"
  let ?js = "map int [Suc 0..<nat ?h]" and ?is = "map int [Suc 0..<nat ?w]"
  note cells = init_cells_cells [OF assms(1)]
  have wr: "wrap32 ?w = ?w"
    using layout_wrapped [of d s] init_cells_counts [OF assms(1)] by simp
  have lists: "map int [0..<nat ?w] = 0 # ?is" "map int [0..<nat ?h] = 0 # ?js"
    using assms(2,3) by (simp_all add: upt_conv_Cons)
  let ?c0 = "?f 0 0 (cells_' s)"
  let ?c1 = "fold (?f 0) ?js ?c0"
  have cs: "cells_' s' = fold (\<lambda>i. fold (?f i) (0 # ?js)) ?is ?c1"
    using conjunct2 [OF cells] unfolding lists by simp
  have index: "cell_index ?w i j = i * ?w + j" if "0 \<le> i" "i < ?w" "0 \<le> j" "j < ?h" for i j
    using layout_index_exact [OF conjunct1 [OF cells] wr that] by simp
  have "0 \<notin> (\<lambda>p. nat (cell_index ?w (fst p) (snd p))) ` (set ?is \<times> set (0 # ?js))"
  proof
    assume "0 \<in> (\<lambda>p. nat (cell_index ?w (fst p) (snd p))) ` (set ?is \<times> set (0 # ?js))"
    then obtain p where p: "p \<in> set ?is \<times> set (0 # ?js)"
      and zero': "0 = nat (cell_index ?w (fst p) (snd p))"
      by (rule imageE)
    define i j where "i = fst p" and "j = snd p"
    from p have "i \<in> set ?is" "j \<in> set (0 # ?js)"
      by (simp_all add: i_def j_def mem_Times_iff)
    then have ij: "1 \<le> i" "i < ?w" "0 \<le> j" "j < ?h"
      using assms(3) by auto
    then have "cell_index ?w i j = i * ?w + j"
      by (intro index) simp_all
    with zero' have zero: "nat (i * ?w + j) = 0"
      by (simp add: i_def j_def)
    have "1 * ?w \<le> i * ?w"
      using ij(1) assms(2) by (intro mult_right_mono) simp_all
    with ij(3) zero assms(2) show False by simp
  qed
  then have "cells_' s' 0 = ?c1 0"
    using fold_fold_init_write_flags [of 0 ?w ?is "0 # ?js" "side_' s" "fst (layout_x d s)"
        "fst (layout_y d s)" ?c1]
    unfolding cs by (simp only: if_False)
  moreover have "0 \<notin> (\<lambda>j. nat (cell_index ?w 0 j)) ` set ?js"
  proof
    assume "0 \<in> (\<lambda>j. nat (cell_index ?w 0 j)) ` set ?js"
    then obtain j where j: "j \<in> set ?js" and zero: "0 = nat (cell_index ?w 0 j)"
      by (rule imageE)
    from j have "1 \<le> j" "j < ?h" by auto
    then have "cell_index ?w 0 j = j"
      using index [of 0 j] assms(2) by simp
    with zero \<open>1 \<le> j\<close> show False by simp
  qed
  then have "?c1 0 = ?c0 0"
    using fold_init_write_flags [of 0 ?w 0 ?js "side_' s" "fst (layout_x d s)"
        "fst (layout_y d s)" ?c0]
    by (simp only: if_False)
  moreover have "shape_' (?c0 0) =
      \<lparr>rect_x = fst (layout_x d s), rect_y = fst (layout_y d s),
       rect_w = side_' s, rect_h = side_' s\<rparr>"
    using layout_wrapped [of d s]
    by (simp add: init_write_def cell_index_def add32_def mul32_def wrap32_id
        set_active_change_def set_active_state_def set_wait_state_def set_shape_def)
  ultimately show ?thesis by simp
qed

end
